theory Spec2Isabelle
  imports Main "HOL-Library.AList"
begin

section \<open>Strings\<close>

text \<open>
  Python strings are modelled as \<open>string\<close>: one \<open>char\<close> per code point, restricted to the
  code points below 256. \<open>str.lower\<close> on that range maps \<open>A\<close>..\<open>Z\<close> and the Latin-1 capitals
  (192..222 except the multiplication sign 215) to the code point 32 above, and nothing else.
\<close>

definition is_upper :: "char \<Rightarrow> bool" where
  "is_upper c =
     (let n = (of_char c :: nat)
      in (65 \<le> n \<and> n \<le> 90) \<or> (192 \<le> n \<and> n \<le> 222 \<and> n \<noteq> 215))"

definition py_lower_char :: "char \<Rightarrow> char" where
  "py_lower_char c = (if is_upper c then char_of ((of_char c :: nat) + 32) else c)"

definition lower :: "string \<Rightarrow> string" where
  "lower s = map py_lower_char s"

text \<open>\<open>str(n)\<close> of a Python integer: decimal digits, a leading minus sign when negative.\<close>

function str_nat :: "nat \<Rightarrow> string" where
  "str_nat n =
     (if n < 10 then [char_of (48 + n)]
      else str_nat (n div 10) @ [char_of (48 + n mod 10)])"
  by pat_completeness auto
termination
  by (relation "measure id") auto

declare str_nat.simps [simp del]

definition str_int :: "int \<Rightarrow> string" where
  "str_int i = (if i < 0 then CHR ''-'' # str_nat (nat (- i)) else str_nat (nat i))"

text \<open>
  For the proofs about \<open>str_int\<close>: the decimal digits, and the number a string of digits
  denotes.
\<close>

definition digit_char :: "char \<Rightarrow> bool" where
  "digit_char c = (48 \<le> (of_char c :: nat) \<and> (of_char c :: nat) \<le> 57)"

definition digits_val :: "string \<Rightarrow> nat" where
  "digits_val s = foldl (\<lambda>a c. 10 * a + ((of_char c :: nat) - 48)) 0 s"

text \<open>\<open>s.startswith(p)\<close>, \<open>sep.join(xs)\<close> and \<open>s.replace("'", "''")\<close>.\<close>

definition startswith :: "string \<Rightarrow> string \<Rightarrow> bool" where
  "startswith s p = (take (length p) s = p)"

fun join :: "string \<Rightarrow> string list \<Rightarrow> string" where
  "join sep [] = []"
| "join sep [x] = x"
| "join sep (x # y # ys) = x @ sep @ join sep (y # ys)"

definition replace_quote :: "string \<Rightarrow> string" where
  "replace_quote s = concat (map (\<lambda>c. if c = CHR 0x27 then [CHR 0x27, CHR 0x27] else [c]) s)"

section \<open>Identifier formatter\<close>

text \<open>
  \<^verbatim>\<open>def getName(name):
    return name.lower() if re.match("^[A-Z_0-9]*$", name) != None else f'"{name}"'\<close>

  The character class holds the ASCII capitals, the underscore and the digits. The star is
  greedy and the class holds no newline, so the match succeeds exactly when what follows the
  longest prefix of class characters is accepted by \<open>$\<close>: Python's \<open>$\<close> (without
  \<open>re.MULTILINE\<close>) matches at the end of the string and also just before a newline that is the
  last character of the string.
\<close>

definition ident_char :: "char \<Rightarrow> bool" where
  "ident_char c =
     (let n = (of_char c :: nat)
      in (65 \<le> n \<and> n \<le> 90) \<or> n = 95 \<or> (48 \<le> n \<and> n \<le> 57))"

definition re_match_ident :: "string \<Rightarrow> bool" where
  "re_match_ident name =
     (let rest = dropWhile ident_char name in rest = [] \<or> rest = [CHR 0x0A])"

definition getName :: "string \<Rightarrow> string" where
  "getName name =
     (if re_match_ident name then lower name else [CHR 0x22] @ name @ [CHR 0x22])"

section \<open>Errors\<close>

text \<open>
  The exceptions the modelled code can raise. \<open>KeyError k\<close>: a dictionary has no key \<open>k\<close>.
  \<open>AttributeError a\<close>: attribute \<open>a\<close> is read or written on \<open>None\<close>. \<open>IndexError\<close>: index 0
  of an empty list. \<open>OverflowError\<close>: an integer that does not fit a C \<open>ssize_t\<close> is
  passed as a list index. \<open>Dangling\<close> is no Python exception: an object reference is modelled
  as a handle into the store of tables, and \<open>Dangling\<close> is the result of following a handle that
  names no object, which no Python state can hold.
\<close>

datatype error = KeyError string | AttributeError string | IndexError | OverflowError | Dangling

section \<open>Type normalisation\<close>

text \<open>
  The structured type descriptor of a column row, after \<open>json.loads\<close>: a dictionary in which
  each of the keys \<open>type\<close>, \<open>nullable\<close>, \<open>fixed\<close>, \<open>length\<close>, \<open>precision\<close>, \<open>scale\<close> is present
  or absent. A present key holds a value of the JSON type the catalog gives it (a string, a
  boolean, an integer).
\<close>

record descriptor =
  j_type :: "string option"
  j_nullable :: "bool option"
  j_fixed :: "bool option"
  j_length :: "int option"
  j_precision :: "int option"
  j_scale :: "int option"

text \<open>
  Lines 197 to 224 of \<open>importMetadata\<close> (``get and convert column data type''), in the order
  of the source. \<open>base_datatype\<close> is the renaming of lines 200 to 205, \<open>sized_datatype\<close> the
  \<open>length\<close>/\<open>scale\<close> cascade of lines 207 to 223, \<open>convertDatatype\<close> the whole block: it
  returns the values stored in \<open>column.datatype\<close> and \<open>column.nullable\<close>.
\<close>

definition base_datatype :: "descriptor \<Rightarrow> string \<Rightarrow> string" where
  "base_datatype d t =
     (if t = ''FIXED'' then ''NUMBER''
      else case j_fixed d of
             None \<Rightarrow> t
           | Some fixed \<Rightarrow>
               if t = ''TEXT'' then (if fixed then ''CHAR'' else ''VARCHAR'') else t)"

definition sized_datatype :: "descriptor \<Rightarrow> string \<Rightarrow> error + string" where
  "sized_datatype d t =
     (case j_length d of
        Some l \<Rightarrow> Inr (t @ ''('' @ str_int l @ '')'')
      | None \<Rightarrow>
         (case j_scale d of
            None \<Rightarrow> Inr t
          | Some s \<Rightarrow>
             (case j_precision d of
                None \<Rightarrow> Inl (KeyError ''precision'')
              | Some p \<Rightarrow>
                  if p = 0 then
                    (let t1 = t @ ''('' @ str_int s @ '')''
                     in Inr (if t1 = ''TIMESTAMP_NTZ(9)'' then ''TIMESTAMP'' else t1))
                  else if s = 0 then
                    (let t1 = t @ ''('' @ str_int p @ '')''
                     in Inr (if t1 = ''NUMBER(38)'' then ''INT''
                             else if startswith t1 ''NUMBER('' then ''INT('' @ str_int p @ '')''
                             else t1))
                  else Inr (t @ ''('' @ str_int p @ '','' @ str_int s @ '')''))))"

definition convertDatatype :: "descriptor \<Rightarrow> error + (string \<times> bool)" where
  "convertDatatype d =
     (case j_type d of
        None \<Rightarrow> Inl (KeyError ''type'')
      | Some t \<Rightarrow>
         (case j_nullable d of
            None \<Rightarrow> Inl (KeyError ''nullable'')
          | Some b \<Rightarrow>
             (case sized_datatype d (base_datatype d t) of
                Inl e \<Rightarrow> Inl e
              | Inr t' \<Rightarrow> Inr (lower t', b))))"

section \<open>Schema model\<close>

text \<open>
  The classes \<open>Table\<close> and \<open>Column\<close>. A Python object reference is modelled as a handle: a
  table by its key in the \<open>tables\<close> dictionary, a column by the key of its table together with
  its index in that table's \<open>columns\<close> list (columns are only ever appended, so an index keeps
  naming the same column). The lists \<open>pks\<close>, \<open>uniques[c]\<close> and \<open>fks[c]\<close> of a table hold columns
  of that same table and are stored as index lists. A dictionary is an insertion-ordered
  association list. The fields keep the names of the attributes, except \<open>Column.name\<close>,
  \<open>Column.comment\<close> and \<open>Column.datatype\<close>, which are \<open>cname\<close>, \<open>ccomment\<close> and \<open>dtype\<close>
  (the first two names belong to \<open>Table\<close>, the third is a keyword). \<open>label\<close> and \<open>datatype\<close>
  are \<open>None\<close> in the constructors and are assigned before the object is used; \<open>Table_init\<close>
  starts \<open>label\<close> as the empty string.
\<close>

type_synonym colref = "string \<times> nat"

record Column =
  table :: string
  cname :: string
  ccomment :: string
  nullable :: bool
  dtype :: string
  identity :: bool
  isunique :: bool
  ispk :: bool
  fkof :: "colref option"

record Table =
  name :: string
  comment :: string
  label :: string
  columns :: "Column list"
  uniques :: "(string \<times> nat list) list"
  pks :: "nat list"
  fks :: "(string \<times> nat list) list"

type_synonym tables = "(string \<times> Table) list"

definition Table_init :: "string \<Rightarrow> string \<Rightarrow> Table" where
  "Table_init n c =
     \<lparr>name = n, comment = c, label = [], columns = [], uniques = [], pks = [], fks = []\<rparr>"

text \<open>\<open>Table.getColumn\<close>: the first column of that name, or \<open>None\<close>.\<close>

fun getColumnIn :: "Column list \<Rightarrow> string \<Rightarrow> nat option" where
  "getColumnIn [] n = None"
| "getColumnIn (c # cs) n =
     (if cname c = n then Some 0 else map_option Suc (getColumnIn cs n))"

definition getColumn :: "Table \<Rightarrow> string \<Rightarrow> nat option" where
  "getColumn self n = getColumnIn (columns self) n"

text \<open>Following a column handle inside its table.\<close>

definition column_at :: "Table \<Rightarrow> nat \<Rightarrow> Column option" where
  "column_at t i = (if i < length (columns t) then Some (columns t ! i) else None)"

section \<open>Metadata importer\<close>

text \<open>
  The catalog: the five ordered row-sets that \<open>cur.execute(...).fetchall()\<close> returns for
  \<open>show tables\<close>, \<open>show columns\<close>, \<open>show unique keys\<close>, \<open>show primary keys\<close> and
  \<open>show imported keys\<close>. A row is kept as the fields \<open>importMetadata\<close> reads, each named
  with its position in the tuple; the fields read through \<open>str(...)\<close> are strings, the type
  descriptor is the JSON object of \<open>row[3]\<close> as parsed, the key position is the integer of
  \<open>int(row[5])\<close>.
\<close>

record table_row =
  tr_name :: string  \<comment> \<open>\<open>row[1]\<close>\<close>
  tr_comment :: string  \<comment> \<open>\<open>row[5]\<close>\<close>

record column_row =
  cr_table :: string  \<comment> \<open>\<open>row[0]\<close>\<close>
  cr_name :: string  \<comment> \<open>\<open>row[2]\<close>\<close>
  cr_datatype :: descriptor  \<comment> \<open>\<open>row[3]\<close>\<close>
  cr_comment :: string  \<comment> \<open>\<open>row[8]\<close>\<close>
  cr_autoincrement :: string  \<comment> \<open>\<open>row[10]\<close>\<close>

record unique_row =
  ur_table :: string  \<comment> \<open>\<open>row[3]\<close>\<close>
  ur_column :: string  \<comment> \<open>\<open>row[4]\<close>\<close>
  ur_constraint :: string  \<comment> \<open>\<open>row[6]\<close>\<close>

record pk_row =
  pr_table :: string  \<comment> \<open>\<open>row[3]\<close>\<close>
  pr_column :: string  \<comment> \<open>\<open>row[4]\<close>\<close>
  pr_key_sequence :: int  \<comment> \<open>\<open>row[5]\<close>\<close>

record fk_row =
  fr_pk_schema :: string  \<comment> \<open>\<open>row[2]\<close>\<close>
  fr_pk_table :: string  \<comment> \<open>\<open>row[3]\<close>\<close>
  fr_pk_column :: string  \<comment> \<open>\<open>row[4]\<close>\<close>
  fr_fk_schema :: string  \<comment> \<open>\<open>row[6]\<close>\<close>
  fr_fk_table :: string  \<comment> \<open>\<open>row[7]\<close>\<close>
  fr_fk_column :: string  \<comment> \<open>\<open>row[8]\<close>\<close>
  fr_fk_name :: string  \<comment> \<open>\<open>row[12]\<close>\<close>

record cursor =
  show_tables :: "table_row list"
  show_columns :: "column_row list"
  show_unique_keys :: "unique_row list"
  show_primary_keys :: "pk_row list"
  show_imported_keys :: "fk_row list"

text \<open>
  \<open>list.insert(i, x)\<close>: a negative index counts from the end and stops at the front, an index
  beyond the end appends. CPython converts the index to a \<open>ssize_t\<close> first and raises
  \<open>OverflowError\<close> when it does not fit: \<open>fits_ssize_t\<close> is the test (for the 64-bit
  interpreter), made by the caller, and \<open>list_insert\<close> is the insertion for an index that fits.
\<close>

definition fits_ssize_t :: "int \<Rightarrow> bool" where
  "fits_ssize_t i \<longleftrightarrow> - 9223372036854775808 \<le> i \<and> i \<le> 9223372036854775807"

definition list_insert :: "int \<Rightarrow> 'a \<Rightarrow> 'a list \<Rightarrow> 'a list" where
  "list_insert i x xs =
     (let n = int (length xs);
          j = (if i < 0 then max 0 (i + n) else min i n)
      in take (nat j) xs @ x # drop (nat j) xs)"

text \<open>
  \<^verbatim>\<open>if constraint not in d: d[constraint] = []\<close> followed by
  \<^verbatim>\<open>d[constraint].append(column)\<close>.
\<close>

definition constraint_append :: "string \<Rightarrow> nat \<Rightarrow> (string \<times> nat list) list \<Rightarrow> (string \<times> nat list) list" where
  "constraint_append c i d =
     (let d1 = (if map_of d c = None then AList.update c [] d else d)
      in AList.map_entry c (\<lambda>members. members @ [i]) d1)"

text \<open>An attribute assignment on the column behind a handle.\<close>

definition set_column :: "nat \<Rightarrow> (Column \<Rightarrow> Column) \<Rightarrow> Table \<Rightarrow> Table" where
  "set_column i f t = t\<lparr>columns := (columns t)[i := f (columns t ! i)]\<rparr>"

text \<open>Lines 180 to 184: one row of \<open>show tables\<close>.\<close>

definition import_table :: "table_row \<Rightarrow> tables \<Rightarrow> tables" where
  "import_table row ts =
     (let n = tr_name row;
          ts1 = AList.update n (Table_init n (tr_comment row)) ts
      in AList.map_entry n (\<lambda>t. t\<lparr>label := ''n'' @ str_nat (length ts1)\<rparr>) ts1)"

text \<open>Lines 188 to 224: one row of \<open>show columns\<close>.\<close>

definition import_column :: "column_row \<Rightarrow> tables \<Rightarrow> error + tables" where
  "import_column row ts =
     (case map_of ts (cr_table row) of
        None \<Rightarrow> Inl (KeyError (cr_table row))
      | Some t \<Rightarrow>
         (case convertDatatype (cr_datatype row) of
            Inl e \<Rightarrow> Inl e
          | Inr (dt, nl) \<Rightarrow>
              Inr (AList.map_entry (cr_table row)
                    (\<lambda>t. t\<lparr>columns := columns t @
                        [\<lparr>table = cr_table row, cname = cr_name row, ccomment = cr_comment row,
                          nullable = nl, dtype = dt, identity = (cr_autoincrement row \<noteq> []),
                          isunique = False, ispk = False, fkof = None\<rparr>]\<rparr>) ts)))"

text \<open>Lines 228 to 237: one row of \<open>show unique keys\<close>.\<close>

definition import_unique :: "unique_row \<Rightarrow> tables \<Rightarrow> error + tables" where
  "import_unique row ts =
     (case map_of ts (ur_table row) of
        None \<Rightarrow> Inl (KeyError (ur_table row))
      | Some t \<Rightarrow>
         (case getColumn t (ur_column row) of
            None \<Rightarrow> Inl (AttributeError ''isunique'')
          | Some i \<Rightarrow>
              Inr (AList.map_entry (ur_table row)
                    (\<lambda>t. set_column i (\<lambda>c. c\<lparr>isunique := True\<rparr>)
                           (t\<lparr>uniques := constraint_append (ur_constraint row) i (uniques t)\<rparr>))
                    ts)))"

text \<open>Lines 241 to 247: one row of \<open>show primary keys\<close>.\<close>

definition import_pk :: "pk_row \<Rightarrow> tables \<Rightarrow> error + tables" where
  "import_pk row ts =
     (case map_of ts (pr_table row) of
        None \<Rightarrow> Inl (KeyError (pr_table row))
      | Some t \<Rightarrow>
         (case getColumn t (pr_column row) of
            None \<Rightarrow> Inl (AttributeError ''ispk'')
          | Some i \<Rightarrow>
              (let pos = pr_key_sequence row - 1
               in if fits_ssize_t pos then
                    Inr (AList.map_entry (pr_table row)
                          (\<lambda>t. (set_column i (\<lambda>c. c\<lparr>ispk := True\<rparr>) t)
                                  \<lparr>pks := list_insert pos i (pks t)\<rparr>)
                          ts)
                  else Inl OverflowError)))"

text \<open>
  Lines 251 to 267: one row of \<open>show imported keys\<close>. The state is the dictionary and the
  lines printed so far. All four lookups come before the comparison of the schemas.
\<close>

definition import_fk :: "fk_row \<Rightarrow> tables \<times> string list \<Rightarrow> error + tables \<times> string list" where
  "import_fk row st =
     (let ts = fst st; out = snd st
      in case map_of ts (fr_pk_table row) of
           None \<Rightarrow> Inl (KeyError (fr_pk_table row))
         | Some pktable \<Rightarrow>
            (let pkcolumn = getColumn pktable (fr_pk_column row)
             in case map_of ts (fr_fk_table row) of
                  None \<Rightarrow> Inl (KeyError (fr_fk_table row))
                | Some fktable \<Rightarrow>
                   (let fkcolumn = getColumn fktable (fr_fk_column row)
                    in if fr_pk_schema row \<noteq> fr_fk_schema row then
                         (case fkcolumn of
                            None \<Rightarrow> Inl (AttributeError ''name'')
                          | Some i \<Rightarrow>
                              Inr (ts, out @ [''??? Relationship accross schemas, for ''
                                     @ name fktable @ ''.'' @ cname (columns fktable ! i) @ ''!'']))
                       else
                         (case fkcolumn of
                            None \<Rightarrow> Inl (AttributeError ''fkof'')
                          | Some i \<Rightarrow>
                              Inr (AList.map_entry (fr_fk_table row)
                                     (\<lambda>t. set_column i
                                             (\<lambda>c. c\<lparr>fkof := map_option (Pair (fr_pk_table row)) pkcolumn\<rparr>)
                                             (t\<lparr>fks := constraint_append (fr_fk_name row) i (fks t)\<rparr>))
                                     ts, out)))))"

text \<open>A \<open>for row in results\<close> loop whose body may raise.\<close>

fun for_rows :: "('r \<Rightarrow> 's \<Rightarrow> error + 's) \<Rightarrow> 'r list \<Rightarrow> 's \<Rightarrow> error + 's" where
  "for_rows f [] s = Inr s"
| "for_rows f (r # rs) s = (case f r s of Inl e \<Rightarrow> Inl e | Inr s' \<Rightarrow> for_rows f rs s')"

text \<open>The primary-key pass (lines 240 to 247).\<close>

definition import_pks :: "pk_row list \<Rightarrow> tables \<Rightarrow> error + tables" where
  "import_pks rows ts = for_rows import_pk rows ts"

text \<open>
  \<open>importMetadata(tables, cur)\<close>: the five passes in the order of the source. The result is
  the dictionary and the printed lines, or the exception of the first row that raises.
  \<open>main\<close> calls it once, with the empty dictionary (lines 417 and 418), and every result
  about \<open>importMetadata\<close> below is about that call. A handle names a table by its key,
  which is the object the source holds as long as no key of the starting dictionary is
  assigned again by the first pass;
  with a starting dictionary whose tables are listed again, a \<open>fkof\<close> of the source would keep
  the replaced \<open>Table\<close> object, which a handle cannot express.
\<close>

definition importMetadata :: "tables \<Rightarrow> cursor \<Rightarrow> error + tables \<times> string list" where
  "importMetadata tables0 cur =
     (let ts1 = foldl (\<lambda>ts row. import_table row ts) tables0 (show_tables cur)
      in case for_rows import_column (show_columns cur) ts1 of
           Inl e \<Rightarrow> Inl e
         | Inr ts2 \<Rightarrow>
            (case for_rows import_unique (show_unique_keys cur) ts2 of
               Inl e \<Rightarrow> Inl e
             | Inr ts3 \<Rightarrow>
                (case import_pks (show_primary_keys cur) ts3 of
                   Inl e \<Rightarrow> Inl e
                 | Inr ts4 \<Rightarrow> for_rows import_fk (show_imported_keys cur) (ts4, []))))"

section \<open>DDL generator\<close>

text \<open>
  \<open>Column.getCreateColumn\<close> (lines 162 to 171). The local variables \<open>nullable\<close>,
  \<open>identity\<close>, \<open>pk\<close> and \<open>comment\<close> of the method are the four clause functions; the table
  they take is \<open>self.table\<close>, which \<open>getCreateColumn\<close> follows through the store.
\<close>

definition nullable_clause :: "Table \<Rightarrow> Column \<Rightarrow> string" where
  "nullable_clause t self =
     (if nullable self \<or> (ispk self \<and> length (pks t) = 1) then [] else '' not null'')"

definition identity_clause :: "Column \<Rightarrow> string" where
  "identity_clause self = (if \<not> identity self then [] else '' identity'')"

definition pk_clause :: "Table \<Rightarrow> Column \<Rightarrow> string" where
  "pk_clause t self = (if \<not> ispk self \<or> length (pks t) \<ge> 2 then [] else '' primary key'')"

definition comment_clause :: "Column \<Rightarrow> string" where
  "comment_clause self =
     (let comment0 = replace_quote (ccomment self)
      in if comment0 \<noteq> [] then '' comment '' @ [CHR 0x27] @ comment0 @ [CHR 0x27]
         else comment0)"

definition getCreateColumn :: "tables \<Rightarrow> Column \<Rightarrow> error + string" where
  "getCreateColumn ts self =
     (case map_of ts (table self) of
        None \<Rightarrow> Inl Dangling
      | Some t \<Rightarrow>
          Inr ([CHR 0x0A] @ ''  '' @ getName (cname self) @ '' '' @ dtype self
               @ nullable_clause t self @ identity_clause self @ pk_clause t self
               @ comment_clause self))"

text \<open>
  The names of the columns a constraint lists, \<open>[getName(column.name) for column in ...]\<close>.
\<close>

fun column_names :: "Table \<Rightarrow> nat list \<Rightarrow> error + string list" where
  "column_names t [] = Inr []"
| "column_names t (i # is) =
     (case column_at t i of
        None \<Rightarrow> Inl Dangling
      | Some c \<Rightarrow>
         (case column_names t is of
            Inl e \<Rightarrow> Inl e
          | Inr ns \<Rightarrow> Inr (getName (cname c) # ns)))"

definition getUniques :: "Table \<Rightarrow> string \<Rightarrow> error + string" where
  "getUniques self n =
     (case map_of (uniques self) n of
        None \<Rightarrow> Inl (KeyError n)
      | Some constraint \<Rightarrow>
         (case column_names self constraint of
            Inl e \<Rightarrow> Inl e
          | Inr us \<Rightarrow> Inr ('','' @ [CHR 0x0A] @ ''  unique ('' @ join '', '' us @ '')'')))"

definition getPKs :: "Table \<Rightarrow> error + string" where
  "getPKs self =
     (case column_names self (pks self) of
        Inl e \<Rightarrow> Inl e
      | Inr ps \<Rightarrow> Inr ('','' @ [CHR 0x0A] @ ''  primary key ('' @ join '', '' ps @ '')''))"

text \<open>
  \<open>Table.getCreateTable\<close> (lines 62 to 81): the loop over the columns with its \<open>first\<close>
  flag, the loop over the keys of \<open>uniques\<close>, the composite key, the closing part.
\<close>

fun create_columns :: "tables \<Rightarrow> Column list \<Rightarrow> bool \<Rightarrow> string \<Rightarrow> error + string" where
  "create_columns ts [] first s = Inr s"
| "create_columns ts (c # cs) first s =
     (case getCreateColumn ts c of
        Inl e \<Rightarrow> Inl e
      | Inr d \<Rightarrow> create_columns ts cs False ((if first then s else s @ '','') @ d))"

fun create_uniques :: "Table \<Rightarrow> string list \<Rightarrow> string \<Rightarrow> error + string" where
  "create_uniques self [] s = Inr s"
| "create_uniques self (k # ks) s =
     (case getUniques self k of
        Inl e \<Rightarrow> Inl e
      | Inr u \<Rightarrow> create_uniques self ks (s @ u))"

definition getCreateTable :: "tables \<Rightarrow> Table \<Rightarrow> error + string" where
  "getCreateTable ts self =
     (let s0 = ''create or replace table '' @ getName (name self) @ '' (''
      in case create_columns ts (columns self) True s0 of
           Inl e \<Rightarrow> Inl e
         | Inr s1 \<Rightarrow>
            (case (if length (uniques self) > 0
                   then create_uniques self (map fst (uniques self)) s1 else Inr s1) of
               Inl e \<Rightarrow> Inl e
             | Inr s2 \<Rightarrow>
                (case (if length (pks self) \<ge> 2
                       then (case getPKs self of Inl e \<Rightarrow> Inl e | Inr p \<Rightarrow> Inr (s2 @ p))
                       else Inr s2) of
                   Inl e \<Rightarrow> Inl e
                 | Inr s3 \<Rightarrow>
                    (let s4 = s3 @ [CHR 0x0A] @ '')'';
                         s5 = (if comment self \<noteq> []
                               then s4 @ '' comment = '' @ [CHR 0x27]
                                    @ replace_quote (comment self) @ [CHR 0x27]
                               else s4)
                     in Inr (s5 @ '';'' @ [CHR 0x0A, CHR 0x0A])))))"

text \<open>
  The results of \<open>getCreateTable\<close> for the tables of a dictionary, in the order in which
  \<open>dumpCreateScript\<close> calls it (lines 275 and 276).
\<close>

definition create_statements :: "tables \<Rightarrow> (error + string) list" where
  "create_statements ts = map (\<lambda>(k, t). getCreateTable ts t) ts"

section \<open>Diagram generator\<close>




text \<open>
  The first member column of a constraint and the table its \<open>fkof\<close> points into:
  \<open>fks[0]\<close> and \<open>fks[0].fkof.table\<close>, when each reference is there.
\<close>

definition first_member :: "Table \<Rightarrow> nat list \<Rightarrow> Column option" where
  "first_member t members = (case members of [] \<Rightarrow> None | i # _ \<Rightarrow> column_at t i)"

definition parent_table :: "tables \<Rightarrow> Table \<Rightarrow> nat list \<Rightarrow> Table option" where
  "parent_table ts t members =
     (case first_member t members of
        None \<Rightarrow> None
      | Some fk1 \<Rightarrow> (case fkof fk1 of None \<Rightarrow> None | Some (pn, j) \<Rightarrow> map_of ts pn))"

section \<open>Views of the dictionary used to state invariants\<close>

text \<open>
  \<open>key_flags\<close> is what the primary-key pass decides about a table: the name and the \<open>ispk\<close>
  flag of each column, in order. \<open>flags ts k\<close> is that view of the table under key \<open>k\<close>.
  \<open>marked fl tn cn\<close> says that the column \<open>getColumn\<close> finds for the name \<open>cn\<close> in table
  \<open>tn\<close> carries the flag, if there is such a table and column.
\<close>

definition key_flags :: "Table \<Rightarrow> (string \<times> bool) list" where
  "key_flags t = map (\<lambda>c. (cname c, ispk c)) (columns t)"

definition flags :: "tables \<Rightarrow> string \<Rightarrow> (string \<times> bool) list option" where
  "flags ts k = map_option key_flags (map_of ts k)"

fun index_of :: "string \<Rightarrow> string list \<Rightarrow> nat option" where
  "index_of n [] = None"
| "index_of n (x # xs) = (if x = n then Some 0 else map_option Suc (index_of n xs))"

definition marked :: "(string \<Rightarrow> (string \<times> bool) list option) \<Rightarrow> string \<Rightarrow> string \<Rightarrow> bool" where
  "marked fl tn cn =
     (case fl tn of
        None \<Rightarrow> True
      | Some v \<Rightarrow> (case index_of cn (map fst v) of None \<Rightarrow> True | Some i \<Rightarrow> snd (v ! i)))"

text \<open>
  \<open>fk_targets_pk\<close>: every \<open>fkof\<close> that is set names a column that exists and is flagged
  \<open>ispk\<close>. \<open>key_rows_cover\<close>: every foreign-key row that gets linked (equal schemas) has its
  parent table and column named by a primary-key row.
\<close>

definition fkof_is_pk :: "tables \<Rightarrow> colref option \<Rightarrow> bool" where
  "fkof_is_pk ts r =
     (case r of
        None \<Rightarrow> True
      | Some (pn, j) \<Rightarrow>
         (case map_of ts pn of
            None \<Rightarrow> False
          | Some pt \<Rightarrow> (case column_at pt j of None \<Rightarrow> False | Some pc \<Rightarrow> ispk pc)))"

definition fk_targets_pk :: "tables \<Rightarrow> bool" where
  "fk_targets_pk ts =
     list_all (\<lambda>(k, t). list_all (\<lambda>c. fkof_is_pk ts (fkof c)) (columns t)) ts"

definition key_rows_cover :: "cursor \<Rightarrow> bool" where
  "key_rows_cover cur =
     list_all (\<lambda>r. fr_pk_schema r \<noteq> fr_fk_schema r \<or>
                  list_ex (\<lambda>p. pr_table p = fr_pk_table r \<and> pr_column p = fr_pk_column r)
                    (show_primary_keys cur))
       (show_imported_keys cur)"

text \<open>
  The same statements over the views, for the proofs: \<open>target_ok\<close> reads the flag of a
  handle's column in the view; \<open>fk_ok\<close> says it of every \<open>fkof\<close> reachable by a lookup, and
  \<open>no_fk\<close> that no \<open>fkof\<close> is set.
\<close>

definition target_ok :: "(string \<Rightarrow> (string \<times> bool) list option) \<Rightarrow> colref option \<Rightarrow> bool" where
  "target_ok fl r =
     (case r of
        None \<Rightarrow> True
      | Some (pn, j) \<Rightarrow> (case fl pn of None \<Rightarrow> False | Some v \<Rightarrow> j < length v \<and> snd (v ! j)))"

definition fk_ok :: "tables \<Rightarrow> bool" where
  "fk_ok ts =
     (\<forall>k t c. map_of ts k = Some t \<longrightarrow> c \<in> set (columns t) \<longrightarrow> target_ok (flags ts) (fkof c))"

definition no_fk :: "tables \<Rightarrow> bool" where
  "no_fk ts = (\<forall>k t c. map_of ts k = Some t \<longrightarrow> c \<in> set (columns t) \<longrightarrow> fkof c = None)"

text \<open>
  What the lists of handles of a table must satisfy to name objects: \<open>refs_ok n d\<close> for a
  dictionary of constraints over \<open>n\<close> columns (distinct names, non-empty lists of column
  indices below \<open>n\<close>), \<open>table_wf k t\<close> for the table stored under key \<open>k\<close> (its columns
  point back to \<open>k\<close>, its \<open>pks\<close> name columns flagged \<open>ispk\<close>), \<open>tables_wf\<close> for a dictionary.
\<close>

definition refs_ok :: "nat \<Rightarrow> (string \<times> nat list) list \<Rightarrow> bool" where
  "refs_ok n d =
     (list_all (\<lambda>(c, js). js \<noteq> [] \<and> list_all (\<lambda>i. i < n) js) d \<and> distinct (map fst d))"

definition table_wf :: "string \<Rightarrow> Table \<Rightarrow> bool" where
  "table_wf k t =
     (list_all (\<lambda>c. table c = k) (columns t) \<and>
      list_all (\<lambda>i. i < length (columns t) \<and> ispk (columns t ! i)) (pks t) \<and>
      refs_ok (length (columns t)) (uniques t) \<and>
      refs_ok (length (columns t)) (fks t))"

definition tables_wf :: "tables \<Rightarrow> bool" where
  "tables_wf ts = (distinct (map fst ts) \<and> list_all (\<lambda>(k, t). table_wf k t) ts)"

text \<open>
  The primary-key rows arrive in ascending order when each row carries the position one
  above the number of rows already seen for its table. \<open>seen\<close> counts the rows per table.
\<close>

fun ascending_from :: "(string \<Rightarrow> nat) \<Rightarrow> pk_row list \<Rightarrow> bool" where
  "ascending_from seen [] = True"
| "ascending_from seen (r # rs) =
     (pr_key_sequence r = int (seen (pr_table r)) + 1 \<and>
      ascending_from (seen(pr_table r := Suc (seen (pr_table r)))) rs)"

text \<open>
  \<open>parents_resolved ts cur\<close>: every foreign-key row that gets linked names a parent column
  that \<open>getColumn\<close> finds in the parent table. \<open>members_linked ts\<close>: every member column of
  every FK constraint has \<open>fkof\<close> set to a handle whose table is in the dictionary.
\<close>

definition parents_resolved :: "tables \<Rightarrow> cursor \<Rightarrow> bool" where
  "parents_resolved ts cur =
     list_all (\<lambda>r. fr_pk_schema r \<noteq> fr_fk_schema r \<or>
                  (case map_of ts (fr_pk_table r) of
                     None \<Rightarrow> False
                   | Some pt \<Rightarrow> getColumn pt (fr_pk_column r) \<noteq> None))
       (show_imported_keys cur)"

definition members_linked :: "tables \<Rightarrow> bool" where
  "members_linked ts =
     (\<forall>k t n js i. map_of ts k = Some t \<longrightarrow> (n, js) \<in> set (fks t) \<longrightarrow> i \<in> set js \<longrightarrow>
        (\<exists>pn j. fkof (columns t ! i) = Some (pn, j) \<and> map_of ts pn \<noteq> None))"

section \<open>A catalog to evaluate the model on\<close>

text \<open>
  Four tables: CUSTOMER (sole PK, a UNIQUE constraint), PROFILE (sole PK that is also the FK
  to CUSTOMER), ORDERS (sole PK, nullable FK to CUSTOMER) and ORDER_ITEM (composite PK whose
  first column is the FK to ORDERS). \<open>shop\<close> is the dictionary \<open>importMetadata\<close> builds from
  it, starting from the empty dictionary as \<open>main\<close> does.
\<close>

definition fixed_type :: "int \<Rightarrow> int \<Rightarrow> bool \<Rightarrow> descriptor" where
  "fixed_type p s n =
     \<lparr>j_type = Some ''FIXED'', j_nullable = Some n, j_fixed = None, j_length = None,
      j_precision = Some p, j_scale = Some s\<rparr>"

definition text_type :: "int \<Rightarrow> bool \<Rightarrow> descriptor" where
  "text_type l n =
     \<lparr>j_type = Some ''TEXT'', j_nullable = Some n, j_fixed = Some False, j_length = Some l,
      j_precision = None, j_scale = None\<rparr>"

definition column_of :: "string \<Rightarrow> string \<Rightarrow> descriptor \<Rightarrow> column_row" where
  "column_of t c d =
     \<lparr>cr_table = t, cr_name = c, cr_datatype = d, cr_comment = [], cr_autoincrement = []\<rparr>"

definition fk_of :: "string \<Rightarrow> string \<Rightarrow> string \<Rightarrow> string \<Rightarrow> string \<Rightarrow> fk_row" where
  "fk_of pt pc ft fc n =
     \<lparr>fr_pk_schema = ''PUBLIC'', fr_pk_table = pt, fr_pk_column = pc,
      fr_fk_schema = ''PUBLIC'', fr_fk_table = ft, fr_fk_column = fc, fr_fk_name = n\<rparr>"

definition shop_catalog :: cursor where
  "shop_catalog =
     \<lparr>show_tables =
        [\<lparr>tr_name = ''CUSTOMER'', tr_comment = []\<rparr>,
         \<lparr>tr_name = ''PROFILE'', tr_comment = []\<rparr>,
         \<lparr>tr_name = ''ORDERS'', tr_comment = ''open orders''\<rparr>,
         \<lparr>tr_name = ''ORDER_ITEM'', tr_comment = []\<rparr>],
      show_columns =
        [column_of ''CUSTOMER'' ''ID'' (fixed_type 38 0 False),
         column_of ''CUSTOMER'' ''NAME'' (text_type 100 True),
         column_of ''PROFILE'' ''CUSTOMER_ID'' (fixed_type 38 0 False),
         column_of ''ORDERS'' ''ID'' (fixed_type 38 0 False),
         column_of ''ORDERS'' ''CUSTOMER_ID'' (fixed_type 38 0 True),
         column_of ''ORDER_ITEM'' ''ORDER_ID'' (fixed_type 38 0 False),
         column_of ''ORDER_ITEM'' ''LINE_NO'' (fixed_type 5 0 False),
         column_of ''ORDER_ITEM'' ''PRICE'' (fixed_type 10 2 True)],
      show_unique_keys =
        [\<lparr>ur_table = ''CUSTOMER'', ur_column = ''NAME'', ur_constraint = ''UQ_NAME''\<rparr>],
      show_primary_keys =
        [\<lparr>pr_table = ''CUSTOMER'', pr_column = ''ID'', pr_key_sequence = 1\<rparr>,
         \<lparr>pr_table = ''PROFILE'', pr_column = ''CUSTOMER_ID'', pr_key_sequence = 1\<rparr>,
         \<lparr>pr_table = ''ORDERS'', pr_column = ''ID'', pr_key_sequence = 1\<rparr>,
         \<lparr>pr_table = ''ORDER_ITEM'', pr_column = ''ORDER_ID'', pr_key_sequence = 1\<rparr>,
         \<lparr>pr_table = ''ORDER_ITEM'', pr_column = ''LINE_NO'', pr_key_sequence = 2\<rparr>],
      show_imported_keys =
        [fk_of ''CUSTOMER'' ''ID'' ''PROFILE'' ''CUSTOMER_ID'' ''FK_PROFILE'',
         fk_of ''CUSTOMER'' ''ID'' ''ORDERS'' ''CUSTOMER_ID'' ''FK_CUSTOMER'',
         fk_of ''ORDERS'' ''ID'' ''ORDER_ITEM'' ''ORDER_ID'' ''FK_ORDER'']\<rparr>"

definition shop :: tables where
  "shop = (case importMetadata [] shop_catalog of Inr (ts, out) \<Rightarrow> ts | Inl e \<Rightarrow> [])"

definition shop_table :: "string \<Rightarrow> Table" where
  "shop_table n = (case map_of shop n of Some t \<Rightarrow> t | None \<Rightarrow> Table_init [] [])"

text \<open>
  Three more catalogs. \<open>keys_descending\<close>: one table whose three primary-key rows arrive in
  the order 3, 2, 1. \<open>cross_schema_catalog\<close>: a foreign key of CHILD whose parent table lives in
  another schema, so that \<open>show tables\<close> does not list it. \<open>unique_parent_catalog\<close>: a foreign
  key that references a column of P for which there is no primary-key row.
\<close>

definition keys_descending :: cursor where
  "keys_descending =
     \<lparr>show_tables = [\<lparr>tr_name = ''T'', tr_comment = []\<rparr>],
      show_columns =
        [column_of ''T'' ''A'' (fixed_type 38 0 False),
         column_of ''T'' ''B'' (fixed_type 38 0 False),
         column_of ''T'' ''C'' (fixed_type 38 0 False)],
      show_unique_keys = [],
      show_primary_keys =
        [\<lparr>pr_table = ''T'', pr_column = ''C'', pr_key_sequence = 3\<rparr>,
         \<lparr>pr_table = ''T'', pr_column = ''B'', pr_key_sequence = 2\<rparr>,
         \<lparr>pr_table = ''T'', pr_column = ''A'', pr_key_sequence = 1\<rparr>],
      show_imported_keys = []\<rparr>"

definition cross_schema_catalog :: cursor where
  "cross_schema_catalog =
     \<lparr>show_tables = [\<lparr>tr_name = ''CHILD'', tr_comment = []\<rparr>],
      show_columns = [column_of ''CHILD'' ''PID'' (fixed_type 38 0 False)],
      show_unique_keys = [],
      show_primary_keys = [],
      show_imported_keys =
        [\<lparr>fr_pk_schema = ''OTHER'', fr_pk_table = ''PARENT'', fr_pk_column = ''ID'',
          fr_fk_schema = ''PUBLIC'', fr_fk_table = ''CHILD'', fr_fk_column = ''PID'',
          fr_fk_name = ''FK_PARENT''\<rparr>]\<rparr>"

definition unique_parent_catalog :: cursor where
  "unique_parent_catalog =
     \<lparr>show_tables = [\<lparr>tr_name = ''P'', tr_comment = []\<rparr>, \<lparr>tr_name = ''C'', tr_comment = []\<rparr>],
      show_columns =
        [column_of ''P'' ''ID'' (fixed_type 38 0 False),
         column_of ''C'' ''PID'' (fixed_type 38 0 False)],
      show_unique_keys = [\<lparr>ur_table = ''P'', ur_column = ''ID'', ur_constraint = ''UQ_ID''\<rparr>],
      show_primary_keys = [],
      show_imported_keys = [fk_of ''P'' ''ID'' ''C'' ''PID'' ''FK_P'']\<rparr>"

text \<open>The columns of every table of a dictionary, as name, \<open>ispk\<close> and \<open>fkof\<close>.\<close>

definition column_summary :: "tables \<Rightarrow> (string \<times> (string \<times> bool \<times> colref option) list) list" where
  "column_summary ts = map (\<lambda>(k, t). (k, map (\<lambda>c. (cname c, ispk c, fkof c)) (columns t))) ts"

text \<open>The names of the columns in \<open>pks\<close>, in the order of the list, for every table.\<close>

definition pk_names :: "tables \<Rightarrow> (string \<times> string list) list" where
  "pk_names ts = map (\<lambda>(k, t). (k, map (\<lambda>i. cname (columns t ! i)) (pks t))) ts"

text \<open>
  A foreign-key row of ORDERS whose parent is reported in another schema while a table of the
  parent's name exists in the current one.
\<close>

definition cross_schema_row :: fk_row where
  "cross_schema_row =
     \<lparr>fr_pk_schema = ''OTHER'', fr_pk_table = ''CUSTOMER'', fr_pk_column = ''ID'',
      fr_fk_schema = ''PUBLIC'', fr_fk_table = ''ORDERS'', fr_fk_column = ''CUSTOMER_ID'',
      fr_fk_name = ''FK_OTHER''\<rparr>"

section \<open>Facts about strings\<close>

lemma char_of_numeral [simp]:
  "char_of (numeral k :: nat) =
     Char (odd (numeral k :: nat)) (odd (numeral k div 2 :: nat))
       (odd (numeral k div 4 :: nat)) (odd (numeral k div 8 :: nat))
       (odd (numeral k div 16 :: nat)) (odd (numeral k div 32 :: nat))
       (odd (numeral k div 64 :: nat)) (odd (numeral k div 128 :: nat))"
  by (simp add: char_of_def bit_iff_odd_drop_bit drop_bit_eq_div)

lemma py_lower_char_idem: "py_lower_char (py_lower_char c) = py_lower_char c"
  by (auto simp: py_lower_char_def is_upper_def Let_def)

lemma lower_idem: "lower (lower s) = lower s"
  by (simp add: lower_def py_lower_char_idem)

lemma lower_append: "lower (a @ b) = lower a @ lower b"
  by (simp add: lower_def)

lemma digit_char_of: "(n::nat) < 10 \<Longrightarrow> digit_char (char_of (48 + n))"
  by (simp add: digit_char_def)

lemma str_nat_digits: "\<forall>c \<in> set (str_nat n). digit_char c"
proof (induction n rule: str_nat.induct)
  case (1 n)
  show ?case
  proof (cases "n < 10")
    case True
    then show ?thesis
      by (subst str_nat.simps) (simp add: digit_char_of)
  next
    case False
    have "n mod 10 < 10" by simp
    with False "1" show ?thesis
      by (subst str_nat.simps) (simp add: digit_char_of)
  qed
qed

lemma str_nat_nonempty: "str_nat n \<noteq> []"
  by (subst str_nat.simps) simp

lemma digit_lower: "digit_char c \<Longrightarrow> py_lower_char c = c"
  by (auto simp: digit_char_def py_lower_char_def is_upper_def Let_def)

lemma lower_str_nat: "lower (str_nat n) = str_nat n"
  unfolding lower_def using str_nat_digits [of n]
  by (simp add: map_idI digit_lower)

lemma lower_str_int: "lower (str_int i) = str_int i"
  using lower_str_nat
  by (simp add: str_int_def lower_def py_lower_char_def is_upper_def)

text \<open>Reading a decimal numeral back: \<open>str_nat\<close> is injective.\<close>

lemma digits_val_str_nat: "digits_val (str_nat n) = n"
proof (induction n rule: str_nat.induct)
  case (1 n)
  show ?case
  proof (cases "n < 10")
    case True
    then show ?thesis
      by (subst str_nat.simps) (simp add: digits_val_def)
  next
    case False
    have m: "n mod 10 < 10" by simp
    have "digits_val (str_nat (n div 10)) = n div 10"
      using False "1" by simp
    then have "digits_val (str_nat (n div 10) @ [char_of (48 + n mod 10)]) = 10 * (n div 10) + n mod 10"
      using m by (simp add: digits_val_def)
    with False show ?thesis
      by (subst str_nat.simps) simp
  qed
qed

lemma str_nat_inj: "str_nat a = str_nat b \<Longrightarrow> a = b"
  by (metis digits_val_str_nat)

lemma str_nat_no_minus: "hd (str_nat n) \<noteq> CHR ''-''"
proof -
  have "hd (str_nat n) \<in> set (str_nat n)"
    by (simp add: str_nat_nonempty)
  then have "digit_char (hd (str_nat n))"
    using str_nat_digits by blast
  then show ?thesis
    by (auto simp: digit_char_def)
qed

lemma str_int_inj: "str_int a = str_int b \<Longrightarrow> a = b"
proof -
  assume eq: "str_int a = str_int b"
  have neg: "str_int i = CHR ''-'' # str_nat (nat (- i))" if "i < 0" for i
    using that by (simp add: str_int_def)
  have pos: "str_int i = str_nat (nat i)" if "\<not> i < 0" for i
    using that by (simp add: str_int_def)
  consider "a < 0" "b < 0" | "a < 0" "\<not> b < 0" | "\<not> a < 0" "b < 0" | "\<not> a < 0" "\<not> b < 0"
    by blast
  then show ?thesis
  proof cases
    case 1
    with eq neg have "str_nat (nat (- a)) = str_nat (nat (- b))" by simp
    then have "nat (- a) = nat (- b)" by (rule str_nat_inj)
    with 1 show ?thesis by simp
  next
    case 2
    with eq neg pos have "hd (str_nat (nat b)) = CHR ''-''" by (metis list.sel(1))
    then show ?thesis using str_nat_no_minus by blast
  next
    case 3
    with eq neg pos have "hd (str_nat (nat a)) = CHR ''-''" by (metis list.sel(1))
    then show ?thesis using str_nat_no_minus by blast
  next
    case 4
    with eq pos have "str_nat (nat a) = str_nat (nat b)" by simp
    then have "nat a = nat b" by (rule str_nat_inj)
    with 4 show ?thesis by simp
  qed
qed

lemma str_int_38: "str_int 38 = ''38''"
  by (simp add: str_int_def str_nat.simps)

lemma str_int_eq_38: "str_int p = ''38'' \<longleftrightarrow> p = 38"
  using str_int_inj [of p 38] by (auto simp: str_int_38)

lemma str_int_small:
  "str_int 2 = ''2''" "str_int 4 = ''4''" "str_int 5 = ''5''" "str_int 9 = ''9''"
  "str_int 10 = ''10''"
  by (simp_all add: str_int_def str_nat.simps)

section \<open>The catalog, imported\<close>

lemma shop_import:
  "importMetadata [] shop_catalog =
     Inr ([(''CUSTOMER'',
            \<lparr>name = ''CUSTOMER'', comment = [], label = ''n1'',
               columns =
                 [\<lparr>table = ''CUSTOMER'', cname = ''ID'', ccomment = [], nullable = False,
                     dtype = ''int'', identity = False, isunique = False, ispk = True,
                     fkof = None\<rparr>,
                  \<lparr>table = ''CUSTOMER'', cname = ''NAME'', ccomment = [], nullable = True,
                     dtype = ''varchar(100)'', identity = False, isunique = True, ispk = False,
                     fkof = None\<rparr>],
               uniques = [(''UQ_NAME'', [1])], pks = [0], fks = []\<rparr>),
           (''PROFILE'',
            \<lparr>name = ''PROFILE'', comment = [], label = ''n2'',
               columns =
                 [\<lparr>table = ''PROFILE'', cname = ''CUSTOMER_ID'', ccomment = [],
                     nullable = False, dtype = ''int'', identity = False, isunique = False,
                     ispk = True, fkof = Some (''CUSTOMER'', 0)\<rparr>],
               uniques = [], pks = [0], fks = [(''FK_PROFILE'', [0])]\<rparr>),
           (''ORDERS'',
            \<lparr>name = ''ORDERS'', comment = ''open orders'', label = ''n3'',
               columns =
                 [\<lparr>table = ''ORDERS'', cname = ''ID'', ccomment = [], nullable = False,
                     dtype = ''int'', identity = False, isunique = False, ispk = True,
                     fkof = None\<rparr>,
                  \<lparr>table = ''ORDERS'', cname = ''CUSTOMER_ID'', ccomment = [], nullable = True,
                     dtype = ''int'', identity = False, isunique = False, ispk = False,
                     fkof = Some (''CUSTOMER'', 0)\<rparr>],
               uniques = [], pks = [0], fks = [(''FK_CUSTOMER'', [1])]\<rparr>),
           (''ORDER_ITEM'',
            \<lparr>name = ''ORDER_ITEM'', comment = [], label = ''n4'',
               columns =
                 [\<lparr>table = ''ORDER_ITEM'', cname = ''ORDER_ID'', ccomment = [],
                     nullable = False, dtype = ''int'', identity = False, isunique = False,
                     ispk = True, fkof = Some (''ORDERS'', 0)\<rparr>,
                  \<lparr>table = ''ORDER_ITEM'', cname = ''LINE_NO'', ccomment = [], nullable = False,
                     dtype = ''int(5)'', identity = False, isunique = False, ispk = True,
                     fkof = None\<rparr>,
                  \<lparr>table = ''ORDER_ITEM'', cname = ''PRICE'', ccomment = [], nullable = True,
                     dtype = ''number(10,2)'', identity = False, isunique = False,
                     ispk = False, fkof = None\<rparr>],
               uniques = [], pks = [0, 1], fks = [(''FK_ORDER'', [0])]\<rparr>)],
          [])"
  by code_simp

lemmas shop_eq = shop_def [unfolded shop_import, simplified]

lemmas shop_tables =
  shop_table_def [of "''CUSTOMER''", unfolded shop_eq, simplified]
  shop_table_def [of "''PROFILE''", unfolded shop_eq, simplified]
  shop_table_def [of "''ORDERS''", unfolded shop_eq, simplified]
  shop_table_def [of "''ORDER_ITEM''", unfolded shop_eq, simplified]

lemma shop_imported: "importMetadata [] shop_catalog = Inr (shop, [])"
  using shop_import by (simp add: shop_eq)

section \<open>The identifier formatter, verified\<close>

lemma ident_char_not_newline: "ident_char c \<Longrightarrow> c \<noteq> CHR 0x0A"
  by (auto simp: ident_char_def)

lemma getName_all_ident: "\<forall>c \<in> set nm. ident_char c \<Longrightarrow> getName nm = lower nm"
  by (simp add: getName_def re_match_ident_def)

lemma getName_quoted:
  assumes "\<not> re_match_ident nm"
  shows "getName nm = [CHR 0x22] @ nm @ [CHR 0x22]"
  using assms by (simp add: getName_def)

lemma re_match_ident_iff:
  "re_match_ident nm \<longleftrightarrow>
     (\<forall>c \<in> set nm. ident_char c) \<or>
     (\<exists>pre. nm = pre @ [CHR 0x0A] \<and> (\<forall>c \<in> set pre. ident_char c))"
proof
  assume m: "re_match_ident nm"
  from m consider "dropWhile ident_char nm = []" | "dropWhile ident_char nm = [CHR 0x0A]"
    by (auto simp: re_match_ident_def)
  then show "(\<forall>c \<in> set nm. ident_char c) \<or>
     (\<exists>pre. nm = pre @ [CHR 0x0A] \<and> (\<forall>c \<in> set pre. ident_char c))"
  proof cases
    case 1
    then show ?thesis by simp
  next
    case 2
    have "takeWhile ident_char nm @ dropWhile ident_char nm = nm"
      by (rule takeWhile_dropWhile_id)
    with 2 have "takeWhile ident_char nm @ [CHR 0x0A] = nm"
      by (simp only:)
    then have "nm = takeWhile ident_char nm @ [CHR 0x0A]"
      by (rule sym)
    moreover have "\<forall>c \<in> set (takeWhile ident_char nm). ident_char c"
      by (auto dest: set_takeWhileD)
    ultimately show ?thesis by blast
  qed
next
  assume "(\<forall>c \<in> set nm. ident_char c) \<or>
     (\<exists>pre. nm = pre @ [CHR 0x0A] \<and> (\<forall>c \<in> set pre. ident_char c))"
  then show "re_match_ident nm"
  proof
    assume "\<forall>c \<in> set nm. ident_char c"
    then show ?thesis by (simp add: re_match_ident_def)
  next
    assume "\<exists>pre. nm = pre @ [CHR 0x0A] \<and> (\<forall>c \<in> set pre. ident_char c)"
    then obtain pre where n: "nm = pre @ [CHR 0x0A]" and p: "\<forall>c \<in> set pre. ident_char c"
      by blast
    have "\<not> ident_char (CHR 0x0A)" by (simp add: ident_char_def)
    with p have "dropWhile ident_char (pre @ [CHR 0x0A]) = [CHR 0x0A]"
      by (simp add: dropWhile_append)
    with n show ?thesis by (simp add: re_match_ident_def)
  qed
qed

lemma getName_examples:
  "getName ''TABLE_1'' = ''table_1'' \<and> getName ''My Table'' = [CHR 0x22] @ ''My Table'' @ [CHR 0x22]"
  by (simp add: getName_def re_match_ident_def ident_char_def lower_def py_lower_char_def
      is_upper_def)

text \<open>
  C5. The claim: an identifier is returned lowercased and bare when it consists end-to-end of
  capitals, digits and underscores, and is otherwise wrapped in double quotes unchanged. The
  identifier made of \<open>A\<close> followed by a newline does not consist of such characters only, yet
  \<open>getName\<close> returns it lowercased and bare: the pattern's \<open>$\<close> also matches before a final
  newline.
\<close>

theorem getName_trailing_newline:
  "getName [CHR ''A'', CHR 0x0A] = [CHR ''a'', CHR 0x0A] \<and>
   \<not> ident_char (CHR 0x0A) \<and>
   getName [CHR ''A'', CHR 0x0A] \<noteq> [CHR 0x22] @ [CHR ''A'', CHR 0x0A] @ [CHR 0x22]"
  by (simp add: getName_def re_match_ident_def ident_char_def lower_def py_lower_char_def
      is_upper_def)

text \<open>
  C10. The identifier formatter maps the empty string to the empty string, bare and unquoted.
\<close>

theorem getName_empty: "getName [] = []"
  by (simp add: getName_def re_match_ident_def lower_def)

theorem getName_empty_witness: "re_match_ident [] \<and> length (getName []) = 0"
  using getName_empty by (simp add: re_match_ident_def)

section \<open>Type normalisation, verified\<close>

lemma convertDatatype_lowercased:
  assumes "convertDatatype d = Inr (t, n)"
  shows "lower t = t"
  using assms
  by (auto simp: convertDatatype_def lower_idem split: option.splits sum.splits)

lemma lower_NUMBER: "lower ''NUMBER('' = ''number(''"
  by (simp add: lower_def py_lower_char_def is_upper_def)

lemma lower_INT: "lower ''INT('' = ''int('' \<and> lower ''INT'' = ''int''"
  by (simp add: lower_def py_lower_char_def is_upper_def)

lemma lower_punct: "lower '')'' = '')'' \<and> lower '','' = '',''"
  by (simp add: lower_def py_lower_char_def is_upper_def)

text \<open>
  C6, as the claim states it, fails: the \<open>length\<close> key is tested first (line 207), so a
  NUMBER descriptor that also carries a length renders as \<open>number(length)\<close>.
\<close>

theorem number_with_length_counterexample:
  "convertDatatype \<lparr>j_type = Some ''NUMBER'', j_nullable = Some False, j_fixed = None,
      j_length = Some 10, j_precision = Some 5, j_scale = Some 0\<rparr> = Inr (''number(10)'', False)"
  by (simp add: convertDatatype_def base_datatype_def sized_datatype_def str_int_small
      lower_def py_lower_char_def is_upper_def)

text \<open>
  C6, amended. For every descriptor of raw type NUMBER (or FIXED, which line 201 renames to
  NUMBER) with no \<open>length\<close> key, a \<open>scale\<close> key
  and a nonzero precision: the normalised datatype is \<open>int\<close> when the scale is 0 and the
  precision 38, \<open>int(precision)\<close> when the scale is 0 and the precision is not 38, and
  \<open>number(precision,scale)\<close> when the scale is not 0; the result is in lower case, and the
  nullable flag is the descriptor's.
\<close>

theorem number_with_precision:
  assumes "j_type d = Some ''NUMBER'' \<or> j_type d = Some ''FIXED''"
    and "j_nullable d = Some b" and "j_length d = None"
    and "j_scale d = Some s" and "j_precision d = Some p" and "p \<noteq> 0"
  shows "convertDatatype d =
           Inr (if s = 0 then (if p = 38 then ''int'' else ''int('' @ str_int p @ '')'')
                else ''number('' @ str_int p @ '','' @ str_int s @ '')'', b)
         \<and> (\<forall>t n. convertDatatype d = Inr (t, n) \<longrightarrow> lower t = t)"
proof -
  from assms(1) obtain t where t: "j_type d = Some t" and base: "base_datatype d t = ''NUMBER''"
    by (auto simp: base_datatype_def split: option.splits)
  have sized: "sized_datatype d ''NUMBER'' =
      Inr (if s = 0 then (if p = 38 then ''INT'' else ''INT('' @ str_int p @ '')'')
           else ''NUMBER('' @ str_int p @ '','' @ str_int s @ '')'')"
    using assms by (simp add: sized_datatype_def startswith_def str_int_eq_38)
  have low: "lower (if s = 0 then (if p = 38 then ''INT'' else ''INT('' @ str_int p @ '')'')
           else ''NUMBER('' @ str_int p @ '','' @ str_int s @ '')'') =
        (if s = 0 then (if p = 38 then ''int'' else ''int('' @ str_int p @ '')'')
                else ''number('' @ str_int p @ '','' @ str_int s @ '')'')"
    using lower_append [of "''INT(''"] lower_append [of "''NUMBER(''"] lower_append [of "str_int p"]
      lower_append [of "'',''"] lower_append [of "str_int s"]
    by (simp add: lower_str_int lower_NUMBER lower_INT lower_punct)
  have "convertDatatype d =
           Inr (if s = 0 then (if p = 38 then ''int'' else ''int('' @ str_int p @ '')'')
                else ''number('' @ str_int p @ '','' @ str_int s @ '')'', b)"
    using t assms(2) base sized low by (simp add: convertDatatype_def)
  moreover have "\<forall>t n. convertDatatype d = Inr (t, n) \<longrightarrow> lower t = t"
    using convertDatatype_lowercased by blast
  ultimately show ?thesis by blast
qed

theorem number_with_precision_witness:
  "convertDatatype \<lparr>j_type = Some ''FIXED'', j_nullable = Some False, j_fixed = None,
      j_length = None, j_precision = Some 38, j_scale = Some 0\<rparr> = Inr (''int'', False)
   \<and> convertDatatype \<lparr>j_type = Some ''NUMBER'', j_nullable = Some True, j_fixed = None,
      j_length = None, j_precision = Some 5, j_scale = Some 0\<rparr> = Inr (''int(5)'', True)
   \<and> convertDatatype \<lparr>j_type = Some ''NUMBER'', j_nullable = Some True, j_fixed = None,
      j_length = None, j_precision = Some 10, j_scale = Some 2\<rparr> = Inr (''number(10,2)'', True)"
proof (intro conjI)
  show "convertDatatype \<lparr>j_type = Some ''FIXED'', j_nullable = Some False, j_fixed = None,
      j_length = None, j_precision = Some 38, j_scale = Some 0\<rparr> = Inr (''int'', False)"
    using number_with_precision [of "\<lparr>j_type = Some ''FIXED'', j_nullable = Some False,
      j_fixed = None, j_length = None, j_precision = Some 38, j_scale = Some 0\<rparr>" False 0 38]
    by simp
  show "convertDatatype \<lparr>j_type = Some ''NUMBER'', j_nullable = Some True, j_fixed = None,
      j_length = None, j_precision = Some 5, j_scale = Some 0\<rparr> = Inr (''int(5)'', True)"
    using number_with_precision [of "\<lparr>j_type = Some ''NUMBER'', j_nullable = Some True,
      j_fixed = None, j_length = None, j_precision = Some 5, j_scale = Some 0\<rparr>" True 0 5]
    by (simp add: str_int_small)
  show "convertDatatype \<lparr>j_type = Some ''NUMBER'', j_nullable = Some True, j_fixed = None,
      j_length = None, j_precision = Some 10, j_scale = Some 2\<rparr> = Inr (''number(10,2)'', True)"
    using number_with_precision [of "\<lparr>j_type = Some ''NUMBER'', j_nullable = Some True,
      j_fixed = None, j_length = None, j_precision = Some 10, j_scale = Some 2\<rparr>" True 2 10]
    by (simp add: str_int_small)
qed

text \<open>
  C3, as the claim states it, fails twice. A NUMBER descriptor with scale 9 and precision 0
  normalises to \<open>number(9)\<close>, never to \<open>timestamp\<close>; and a NUMBER descriptor that also carries
  a length renders the length, not the scale.
\<close>

theorem number_scale_nine_counterexample:
  "convertDatatype \<lparr>j_type = Some ''NUMBER'', j_nullable = Some True, j_fixed = None,
      j_length = None, j_precision = Some 0, j_scale = Some 9\<rparr> = Inr (''number(9)'', True)
   \<and> convertDatatype \<lparr>j_type = Some ''NUMBER'', j_nullable = Some True, j_fixed = None,
      j_length = Some 5, j_precision = Some 0, j_scale = Some 2\<rparr> = Inr (''number(5)'', True)"
  by (simp add: convertDatatype_def base_datatype_def sized_datatype_def str_int_small
      lower_def py_lower_char_def is_upper_def)

text \<open>
  C3, amended. For every descriptor with no \<open>length\<close> key, a \<open>scale\<close> key and precision 0:
  when the raw type is NUMBER (or FIXED, which line 201 renames to NUMBER) the normalised
  datatype is \<open>number(scale)\<close>, whatever the scale;
  when the raw type is TIMESTAMP_NTZ and the scale is 9 the normalised datatype is
  \<open>timestamp\<close>.
\<close>

theorem precision_zero:
  assumes "j_nullable d = Some b" and "j_length d = None" and "j_scale d = Some s"
    and "j_precision d = Some 0"
  shows "(j_type d = Some ''NUMBER'' \<or> j_type d = Some ''FIXED'' \<longrightarrow>
            convertDatatype d = Inr (''number('' @ str_int s @ '')'', b))
         \<and> (j_type d = Some ''TIMESTAMP_NTZ'' \<and> s = 9 \<longrightarrow>
            convertDatatype d = Inr (''timestamp'', b))"
proof (intro conjI impI)
  assume "j_type d = Some ''NUMBER'' \<or> j_type d = Some ''FIXED''"
  then obtain t where t: "j_type d = Some t" and base: "base_datatype d t = ''NUMBER''"
    by (auto simp: base_datatype_def split: option.splits)
  have sized: "sized_datatype d ''NUMBER'' = Inr (''NUMBER('' @ str_int s @ '')'')"
    using assms by (simp add: sized_datatype_def)
  have low: "lower (''NUMBER('' @ str_int s @ '')'') = ''number('' @ str_int s @ '')''"
    using lower_append [of "''NUMBER(''"] lower_append [of "str_int s"]
    by (simp add: lower_str_int lower_NUMBER lower_punct)
  show "convertDatatype d = Inr (''number('' @ str_int s @ '')'', b)"
    using t assms(1) base sized low by (simp add: convertDatatype_def)
next
  assume t: "j_type d = Some ''TIMESTAMP_NTZ'' \<and> s = 9"
  have base: "base_datatype d ''TIMESTAMP_NTZ'' = ''TIMESTAMP_NTZ''"
    by (simp add: base_datatype_def split: option.splits)
  have nine: "str_int 9 = ''9''"
    by (rule str_int_small)
  have sized: "sized_datatype d ''TIMESTAMP_NTZ'' = Inr ''TIMESTAMP''"
    using assms t nine by (simp add: sized_datatype_def)
  have low: "lower ''TIMESTAMP'' = ''timestamp''"
    by (simp add: lower_def py_lower_char_def is_upper_def)
  show "convertDatatype d = Inr (''timestamp'', b)"
    using t assms(1) base sized low by (simp add: convertDatatype_def)
qed

theorem precision_zero_witness:
  "convertDatatype \<lparr>j_type = Some ''NUMBER'', j_nullable = Some True, j_fixed = None,
      j_length = None, j_precision = Some 0, j_scale = Some 4\<rparr> = Inr (''number(4)'', True)
   \<and> convertDatatype \<lparr>j_type = Some ''TIMESTAMP_NTZ'', j_nullable = Some True, j_fixed = None,
      j_length = None, j_precision = Some 0, j_scale = Some 9\<rparr> = Inr (''timestamp'', True)"
proof (intro conjI)
  show "convertDatatype \<lparr>j_type = Some ''NUMBER'', j_nullable = Some True, j_fixed = None,
      j_length = None, j_precision = Some 0, j_scale = Some 4\<rparr> = Inr (''number(4)'', True)"
    using precision_zero [of "\<lparr>j_type = Some ''NUMBER'', j_nullable = Some True,
      j_fixed = None, j_length = None, j_precision = Some 0, j_scale = Some 4\<rparr>" True 4]
    by (simp add: str_int_small)
  show "convertDatatype \<lparr>j_type = Some ''TIMESTAMP_NTZ'', j_nullable = Some True,
      j_fixed = None, j_length = None, j_precision = Some 0, j_scale = Some 9\<rparr> =
      Inr (''timestamp'', True)"
    using precision_zero [of "\<lparr>j_type = Some ''TIMESTAMP_NTZ'', j_nullable = Some True,
      j_fixed = None, j_length = None, j_precision = Some 0, j_scale = Some 9\<rparr>" True 9]
    by simp
qed

section \<open>Metadata importer, verified\<close>

subsection \<open>Lookups and handles\<close>

lemma lookup_map_entry:
  "map_of (AList.map_entry k f ts) k' =
     (if k' = k then map_option f (map_of ts k) else map_of ts k')"
  by (simp add: map_of_map_entry split: option.splits)

lemma getColumnIn_index_of: "getColumnIn cs n = index_of n (map cname cs)"
  by (induction cs) auto

lemma getColumn_key_flags: "getColumn t n = index_of n (map fst (key_flags t))"
  by (simp add: getColumn_def getColumnIn_index_of key_flags_def comp_def)

lemma index_of_bound: "index_of n xs = Some i \<Longrightarrow> i < length xs \<and> xs ! i = n"
  by (induction xs arbitrary: i) (auto split: if_splits)

lemma getColumn_bound:
  assumes "getColumn t n = Some i"
  shows "i < length (columns t) \<and> cname (columns t ! i) = n"
proof -
  from assms have "index_of n (map cname (columns t)) = Some i"
    by (simp add: getColumn_def getColumnIn_index_of)
  then have "i < length (map cname (columns t)) \<and> map cname (columns t) ! i = n"
    by (rule index_of_bound)
  then show ?thesis by auto
qed

lemma map_update_same: "(map g xs)[i := g (xs ! i)] = map g xs"
  by (metis list_update_id map_update)

lemma key_flags_set_column:
  assumes "\<And>c. cname (f c) = cname c" and "\<And>c. ispk (f c) = ispk c"
  shows "key_flags (set_column i f t) = key_flags t"
proof -
  have "map (\<lambda>c. (cname c, ispk c)) ((columns t)[i := f (columns t ! i)]) =
      (map (\<lambda>c. (cname c, ispk c)) (columns t))[i := (\<lambda>c. (cname c, ispk c)) (columns t ! i)]"
    using assms by (simp add: map_update)
  also have "\<dots> = map (\<lambda>c. (cname c, ispk c)) (columns t)"
    by (rule map_update_same)
  finally show ?thesis
    by (simp add: key_flags_def set_column_def)
qed

lemma for_rows_induct:
  assumes "for_rows f rows s = Inr s'" and "P s"
    and "\<And>r a b. r \<in> set rows \<Longrightarrow> P a \<Longrightarrow> f r a = Inr b \<Longrightarrow> P b"
  shows "P s'"
  using assms
proof (induction rows arbitrary: s)
  case Nil
  then show ?case by simp
next
  case (Cons r rows)
  from Cons.prems(1) obtain m where m: "f r s = Inr m" and rest: "for_rows f rows m = Inr s'"
    by (auto split: sum.splits)
  have "P m" using Cons.prems(3) [of r s m] Cons.prems(2) m by simp
  with rest Cons.prems(3) show ?case
    by (intro Cons.IH [of m]) auto
qed

subsection \<open>What each pass does to the views\<close>

lemma fkof_is_pk_target_ok: "fkof_is_pk ts r = target_ok (flags ts) r"
  by (auto simp: fkof_is_pk_def target_ok_def flags_def key_flags_def column_at_def
      split: option.splits)

lemma index_of_fst:
  assumes "index_of c (map fst v) = Some i"
  shows "i < length v" and "fst (v ! i) = c"
proof -
  from index_of_bound [OF assms] have "i < length (map fst v)" and "map fst v ! i = c"
    by blast+
  then show "i < length v" and "fst (v ! i) = c"
    by auto
qed

lemma marked_update:
  assumes v: "fl t0 = Some v" and i: "i < length v" and c: "fst (v ! i) = c"
    and m: "marked fl tn cn"
  shows "marked (fl(t0 \<mapsto> v[i := (c, True)])) tn cn"
proof (cases "tn = t0")
  case False
  with m show ?thesis by (simp add: marked_def)
next
  case True
  have names: "map fst (v[i := (c, True)]) = map fst v"
    using i c by (simp add: map_update list_update_same_conv)
  show ?thesis
  proof (cases "index_of cn (map fst v)")
    case None
    with True names show ?thesis by (simp add: marked_def)
  next
    case (Some j)
    then have j: "j < length v"
      by (rule index_of_fst)
    from m True v Some have "snd (v ! j)" by (simp add: marked_def)
    with j i have "snd (v[i := (c, True)] ! j)"
      by (cases "j = i") simp_all
    with True names Some show ?thesis by (simp add: marked_def)
  qed
qed

lemma marked_new:
  assumes "index_of c (map fst v) = Some i"
  shows "marked (fl(t0 \<mapsto> v[i := (c, True)])) t0 c"
proof -
  from assms have i: "i < length v" and ci: "fst (v ! i) = c"
    by (rule index_of_fst)+
  have names: "map fst (v[i := (c, True)]) = map fst v"
    using i ci by (simp add: map_update list_update_same_conv)
  from i show ?thesis
    by (simp add: marked_def names assms)
qed

lemma key_flags_ispk:
  assumes "i < length (columns t)"
  shows "key_flags (set_column i (\<lambda>c. c\<lparr>ispk := True\<rparr>) t) =
           (key_flags t)[i := (cname (columns t ! i), True)]"
  using assms by (simp add: key_flags_def set_column_def map_update)

lemma import_pk_flags:
  assumes "import_pk row ts = Inr ts'"
  shows "\<exists>v i. flags ts (pr_table row) = Some v \<and> index_of (pr_column row) (map fst v) = Some i \<and>
           flags ts' = (flags ts)(pr_table row \<mapsto> v[i := (pr_column row, True)])"
proof -
  from assms obtain t i where t: "map_of ts (pr_table row) = Some t"
    and i: "getColumn t (pr_column row) = Some i"
    and ts': "ts' = AList.map_entry (pr_table row)
        (\<lambda>t. (set_column i (\<lambda>c. c\<lparr>ispk := True\<rparr>) t)
                \<lparr>pks := list_insert (pr_key_sequence row - 1) i (pks t)\<rparr>) ts"
    by (auto simp: import_pk_def Let_def split: option.splits if_splits)
  from i have bound: "i < length (columns t)" and nm: "cname (columns t ! i) = pr_column row"
    using getColumn_bound by blast+
  have kf: "key_flags ((set_column i (\<lambda>c. c\<lparr>ispk := True\<rparr>) t)
        \<lparr>pks := list_insert (pr_key_sequence row - 1) i (pks t)\<rparr>) =
      (key_flags t)[i := (pr_column row, True)]"
    using key_flags_ispk [OF bound] nm by (simp add: key_flags_def)
  have "flags ts' k = ((flags ts)(pr_table row \<mapsto> (key_flags t)[i := (pr_column row, True)])) k"
    for k
    using t kf by (simp add: flags_def ts' lookup_map_entry)
  then have "flags ts' = (flags ts)(pr_table row \<mapsto> (key_flags t)[i := (pr_column row, True)])"
    by (rule ext)
  moreover have "flags ts (pr_table row) = Some (key_flags t)"
    using t by (simp add: flags_def)
  moreover have "index_of (pr_column row) (map fst (key_flags t)) = Some i"
    using i by (simp add: getColumn_key_flags)
  ultimately show ?thesis by blast
qed

lemma import_pk_marks:
  assumes "import_pk row ts = Inr ts'"
  shows "marked (flags ts') (pr_table row) (pr_column row)"
proof -
  from import_pk_flags [OF assms] obtain v i where
    "index_of (pr_column row) (map fst v) = Some i"
    "flags ts' = (flags ts)(pr_table row \<mapsto> v[i := (pr_column row, True)])"
    by blast
  then show ?thesis by (simp add: marked_new)
qed

lemma import_pk_keeps_marked:
  assumes "import_pk row ts = Inr ts'" and "marked (flags ts) tn cn"
  shows "marked (flags ts') tn cn"
proof -
  from import_pk_flags [OF assms(1)] obtain v i where
    v: "flags ts (pr_table row) = Some v"
    and i: "index_of (pr_column row) (map fst v) = Some i"
    and f: "flags ts' = (flags ts)(pr_table row \<mapsto> v[i := (pr_column row, True)])"
    by blast
  from i have "i < length v" "fst (v ! i) = pr_column row"
    by (rule index_of_fst)+
  from marked_update [OF v this assms(2)] f show ?thesis by simp
qed

lemma import_pks_keeps_marked:
  assumes "import_pks rows ts = Inr ts'" and "marked (flags ts) tn cn"
  shows "marked (flags ts') tn cn"
  using assms(1) [unfolded import_pks_def] assms(2)
  by (rule for_rows_induct) (rule import_pk_keeps_marked)

lemma import_pks_marks:
  assumes "import_pks rows ts = Inr ts'" and "p \<in> set rows"
  shows "marked (flags ts') (pr_table p) (pr_column p)"
  using assms
proof (induction rows arbitrary: ts)
  case Nil
  then show ?case by simp
next
  case (Cons r rows)
  from Cons.prems(1) obtain m where m: "import_pk r ts = Inr m"
    and rest: "import_pks rows m = Inr ts'"
    by (auto simp: import_pks_def split: sum.splits)
  show ?case
  proof (cases "p \<in> set rows")
    case True
    with rest show ?thesis by (rule Cons.IH)
  next
    case False
    with Cons.prems(2) have "p = r" by simp
    with m have "marked (flags m) (pr_table p) (pr_column p)"
      by (simp add: import_pk_marks)
    with rest show ?thesis by (rule import_pks_keeps_marked)
  qed
qed

lemma import_fk_cases:
  assumes "import_fk row (ts, out) = Inr (ts', out')"
  obtains (skip) "fr_pk_schema row \<noteq> fr_fk_schema row" and "ts' = ts"
  | (link) pt ft i where "fr_pk_schema row = fr_fk_schema row"
      and "map_of ts (fr_pk_table row) = Some pt" and "map_of ts (fr_fk_table row) = Some ft"
      and "getColumn ft (fr_fk_column row) = Some i"
      and "ts' = AList.map_entry (fr_fk_table row)
             (\<lambda>t. set_column i
                (\<lambda>c. c\<lparr>fkof := map_option (Pair (fr_pk_table row))
                                  (getColumn pt (fr_pk_column row))\<rparr>)
                (t\<lparr>fks := constraint_append (fr_fk_name row) i (fks t)\<rparr>)) ts"
  using assms
  by (auto simp: import_fk_def Let_def split: option.splits if_splits)

lemma key_flags_fk:
  "key_flags (set_column i (\<lambda>c. c\<lparr>fkof := r\<rparr>) (t\<lparr>fks := d\<rparr>)) = key_flags t"
proof -
  have "key_flags (set_column i (\<lambda>c. c\<lparr>fkof := r\<rparr>) (t\<lparr>fks := d\<rparr>)) = key_flags (t\<lparr>fks := d\<rparr>)"
    by (rule key_flags_set_column) simp_all
  then show ?thesis by (simp add: key_flags_def)
qed

lemma import_fk_flags:
  assumes "import_fk row (ts, out) = Inr (ts', out')"
  shows "flags ts' = flags ts"
  using assms
proof (cases rule: import_fk_cases)
  case skip
  then show ?thesis by simp
next
  case (link pt ft i)
  have "flags ts' k = flags ts k" for k
    by (simp add: flags_def link(5) lookup_map_entry key_flags_fk option.map_comp comp_def)
  then show ?thesis by (rule ext)
qed

lemma import_fk_ok:
  assumes step: "import_fk row (ts, out) = Inr (ts', out')" and ok: "fk_ok ts"
    and m: "fr_pk_schema row = fr_fk_schema row \<Longrightarrow>
            marked (flags ts) (fr_pk_table row) (fr_pk_column row)"
  shows "fk_ok ts'"
  using step
proof (cases rule: import_fk_cases)
  case skip
  with ok show ?thesis by simp
next
  case (link pt ft i)
  have fl: "flags ts' = flags ts"
    using step by (rule import_fk_flags)
  let ?new = "map_option (Pair (fr_pk_table row)) (getColumn pt (fr_pk_column row))"
  have new_ok: "target_ok (flags ts) ?new"
  proof (cases "getColumn pt (fr_pk_column row)")
    case None
    then show ?thesis by (simp add: target_ok_def)
  next
    case (Some j)
    then have idx: "index_of (fr_pk_column row) (map fst (key_flags pt)) = Some j"
      by (simp add: getColumn_key_flags)
    have v: "flags ts (fr_pk_table row) = Some (key_flags pt)"
      using link(2) by (simp add: flags_def)
    from m [OF link(1)] v idx have "snd (key_flags pt ! j)"
      by (simp add: marked_def)
    moreover from idx have "j < length (key_flags pt)"
      by (rule index_of_fst)
    ultimately show ?thesis
      using Some v by (simp add: target_ok_def)
  qed
  show ?thesis
    unfolding fk_ok_def fl
  proof (intro allI impI)
    fix k t c
    assume t: "map_of ts' k = Some t" and c: "c \<in> set (columns t)"
    show "target_ok (flags ts) (fkof c)"
    proof (cases "k = fr_fk_table row")
      case False
      with t have "map_of ts k = Some t"
        by (simp add: link(5) lookup_map_entry)
      with ok c show ?thesis by (auto simp: fk_ok_def)
    next
      case True
      with t link(3) have t': "t = set_column i (\<lambda>c. c\<lparr>fkof := ?new\<rparr>)
          (ft\<lparr>fks := constraint_append (fr_fk_name row) i (fks ft)\<rparr>)"
        by (simp add: link(5) lookup_map_entry)
      then have "set (columns t) \<subseteq> insert ((columns ft ! i)\<lparr>fkof := ?new\<rparr>) (set (columns ft))"
        by (simp add: set_column_def set_update_subset_insert)
      with c consider "c = (columns ft ! i)\<lparr>fkof := ?new\<rparr>" | "c \<in> set (columns ft)"
        by blast
      then show ?thesis
      proof cases
        case 1
        with new_ok show ?thesis by simp
      next
        case 2
        with ok link(3) show ?thesis by (auto simp: fk_ok_def)
      qed
    qed
  qed
qed

lemma import_fks_ok:
  assumes run: "for_rows import_fk rows (ts, out) = Inr (ts', out')" and ok: "fk_ok ts"
    and m: "\<And>r. r \<in> set rows \<Longrightarrow> fr_pk_schema r = fr_fk_schema r \<Longrightarrow>
              marked (flags ts) (fr_pk_table r) (fr_pk_column r)"
  shows "fk_ok ts'"
proof -
  have "fk_ok (fst (ts', out')) \<and> flags (fst (ts', out')) = flags ts"
    using run
  proof (rule for_rows_induct)
    show "fk_ok (fst (ts, out)) \<and> flags (fst (ts, out)) = flags ts"
      using ok by simp
  next
    fix r a b
    assume r: "r \<in> set rows" and a: "fk_ok (fst a) \<and> flags (fst a) = flags ts"
      and step: "import_fk r a = Inr b"
    from step have step': "import_fk r (fst a, snd a) = Inr (fst b, snd b)" by simp
    have "fk_ok (fst b)"
      using step' a m [OF r] by (intro import_fk_ok [OF step']) simp_all
    moreover have "flags (fst b) = flags ts"
      using import_fk_flags [OF step'] a by simp
    ultimately show "fk_ok (fst b) \<and> flags (fst b) = flags ts" by simp
  qed
  then show ?thesis by simp
qed

subsection \<open>No reference is set before the foreign-key pass\<close>

lemma no_fk_empty: "no_fk []"
  by (simp add: no_fk_def)

lemma no_fk_import_table:
  assumes "no_fk ts"
  shows "no_fk (import_table row ts)"
  using assms
  by (auto simp: no_fk_def import_table_def Let_def lookup_map_entry update_conv'
      Table_init_def split: if_splits)

lemma no_fk_import_tables:
  assumes "no_fk ts"
  shows "no_fk (foldl (\<lambda>ts row. import_table row ts) ts rows)"
  using assms by (induction rows arbitrary: ts) (simp_all add: no_fk_import_table)

lemma no_fk_set_column:
  assumes "\<And>c. fkof (f c) = fkof c" and "\<forall>c \<in> set (columns t). fkof c = None"
  shows "\<forall>c \<in> set (columns (set_column i f t)). fkof c = None"
proof (cases "i < length (columns t)")
  case False
  then have "columns (set_column i f t) = columns t"
    by (simp add: set_column_def list_update_beyond)
  with assms(2) show ?thesis by simp
next
  case True
  then have old: "fkof (columns t ! i) = None"
    using assms(2) by simp
  show ?thesis
  proof
    fix c
    assume "c \<in> set (columns (set_column i f t))"
    then have "c \<in> insert (f (columns t ! i)) (set (columns t))"
      using set_update_subset_insert [of "columns t" i "f (columns t ! i)"]
      by (auto simp: set_column_def)
    then show "fkof c = None"
      using assms old by auto
  qed
qed

lemma no_fk_import_column:
  assumes "import_column row ts = Inr ts'" and "no_fk ts"
  shows "no_fk ts'"
  using assms
  by (auto simp: no_fk_def import_column_def lookup_map_entry split: option.splits sum.splits
      if_splits)

lemma no_fk_import_unique:
  assumes "import_unique row ts = Inr ts'" and "no_fk ts"
  shows "no_fk ts'"
proof -
  from assms(1) obtain t i where t: "map_of ts (ur_table row) = Some t"
    and ts': "ts' = AList.map_entry (ur_table row)
        (\<lambda>t. set_column i (\<lambda>c. c\<lparr>isunique := True\<rparr>)
               (t\<lparr>uniques := constraint_append (ur_constraint row) i (uniques t)\<rparr>)) ts"
    by (auto simp: import_unique_def split: option.splits)
  show ?thesis
    unfolding no_fk_def
  proof (intro allI impI)
    fix k u c
    assume u: "map_of ts' k = Some u" and c: "c \<in> set (columns u)"
    show "fkof c = None"
    proof (cases "k = ur_table row")
      case False
      with u have "map_of ts k = Some u" by (simp add: ts' lookup_map_entry)
      with assms(2) c show ?thesis by (auto simp: no_fk_def)
    next
      case True
      with u t have u': "u = set_column i (\<lambda>c. c\<lparr>isunique := True\<rparr>)
          (t\<lparr>uniques := constraint_append (ur_constraint row) i (uniques t)\<rparr>)"
        by (simp add: ts' lookup_map_entry)
      have "\<forall>c \<in> set (columns (t\<lparr>uniques := constraint_append (ur_constraint row) i (uniques t)\<rparr>)).
          fkof c = None"
        using assms(2) t by (auto simp: no_fk_def)
      then have "\<forall>c \<in> set (columns u). fkof c = None"
        unfolding u' by (intro no_fk_set_column) simp_all
      with c show ?thesis by blast
    qed
  qed
qed

lemma no_fk_import_pk:
  assumes "import_pk row ts = Inr ts'" and "no_fk ts"
  shows "no_fk ts'"
proof -
  from assms(1) obtain t i where t: "map_of ts (pr_table row) = Some t"
    and ts': "ts' = AList.map_entry (pr_table row)
        (\<lambda>t. (set_column i (\<lambda>c. c\<lparr>ispk := True\<rparr>) t)
                \<lparr>pks := list_insert (pr_key_sequence row - 1) i (pks t)\<rparr>) ts"
    by (auto simp: import_pk_def Let_def split: option.splits if_splits)
  show ?thesis
    unfolding no_fk_def
  proof (intro allI impI)
    fix k u c
    assume u: "map_of ts' k = Some u" and c: "c \<in> set (columns u)"
    show "fkof c = None"
    proof (cases "k = pr_table row")
      case False
      with u have "map_of ts k = Some u" by (simp add: ts' lookup_map_entry)
      with assms(2) c show ?thesis by (auto simp: no_fk_def)
    next
      case True
      with u t have u': "columns u = columns (set_column i (\<lambda>c. c\<lparr>ispk := True\<rparr>) t)"
        by (auto simp: ts' lookup_map_entry)
      have "\<forall>c \<in> set (columns t). fkof c = None"
        using assms(2) t by (auto simp: no_fk_def)
      then have "\<forall>c \<in> set (columns (set_column i (\<lambda>c. c\<lparr>ispk := True\<rparr>) t)). fkof c = None"
        by (intro no_fk_set_column) simp_all
      with c u' show ?thesis by simp
    qed
  qed
qed

lemma no_fk_fk_ok: "no_fk ts \<Longrightarrow> fk_ok ts"
  by (simp add: no_fk_def fk_ok_def target_ok_def)

subsection \<open>The keys of the dictionary stay distinct\<close>

lemma keys_map_entry: "map fst (AList.map_entry k f ts) = map fst ts"
  by (induction ts) auto

lemma distinct_import_table:
  assumes "distinct (map fst ts)"
  shows "distinct (map fst (import_table row ts))"
  using assms by (simp add: import_table_def Let_def keys_map_entry distinct_update)

lemma distinct_import_tables:
  assumes "distinct (map fst ts)"
  shows "distinct (map fst (foldl (\<lambda>ts row. import_table row ts) ts rows))"
  using assms by (induction rows arbitrary: ts) (simp_all add: distinct_import_table)

lemma keys_import_column: "import_column row ts = Inr ts' \<Longrightarrow> map fst ts' = map fst ts"
  by (auto simp: import_column_def keys_map_entry split: option.splits sum.splits)

lemma keys_import_unique: "import_unique row ts = Inr ts' \<Longrightarrow> map fst ts' = map fst ts"
  by (auto simp: import_unique_def keys_map_entry split: option.splits)

lemma keys_import_pk: "import_pk row ts = Inr ts' \<Longrightarrow> map fst ts' = map fst ts"
  by (auto simp: import_pk_def Let_def keys_map_entry split: option.splits if_splits)

lemma keys_import_fk:
  "import_fk row (ts, out) = Inr (ts', out') \<Longrightarrow> map fst ts' = map fst ts"
  by (erule import_fk_cases) (simp_all add: keys_map_entry)

lemma keys_for_rows:
  assumes "for_rows f rows ts = Inr ts'"
    and "\<And>r a b. f r a = Inr b \<Longrightarrow> map fst b = map fst a"
  shows "map fst ts' = map fst ts"
  using assms(1)
proof (rule for_rows_induct [where P = "\<lambda>a. map fst a = map fst ts"])
  show "map fst ts = map fst ts" by simp
next
  fix r a b
  assume "map fst a = map fst ts" and "f r a = Inr b"
  with assms(2) show "map fst b = map fst ts" by metis
qed

lemma keys_import_fks:
  assumes "for_rows import_fk rows (ts, out) = Inr (ts', out')"
  shows "map fst ts' = map fst ts"
proof -
  have "map fst (fst (ts', out')) = map fst ts"
    using assms
  proof (rule for_rows_induct)
    show "map fst (fst (ts, out)) = map fst ts" by simp
  next
    fix r a b
    assume a: "map fst (fst a) = map fst ts" and step: "import_fk r a = Inr b"
    from step have "import_fk r (fst a, snd a) = Inr (fst b, snd b)" by simp
    then have "map fst (fst b) = map fst (fst a)" by (rule keys_import_fk)
    with a show "map fst (fst b) = map fst ts" by simp
  qed
  then show ?thesis by simp
qed

subsection \<open>The passes, taken apart\<close>

lemma importMetadata_passes:
  assumes "importMetadata ts0 cur = Inr (ts, out)"
  obtains ts2 ts3 ts4 where
    "for_rows import_column (show_columns cur)
       (foldl (\<lambda>ts row. import_table row ts) ts0 (show_tables cur)) = Inr ts2"
    and "for_rows import_unique (show_unique_keys cur) ts2 = Inr ts3"
    and "import_pks (show_primary_keys cur) ts3 = Inr ts4"
    and "for_rows import_fk (show_imported_keys cur) (ts4, []) = Inr (ts, out)"
  using assms by (auto simp: importMetadata_def Let_def split: sum.splits)

lemma import_distinct_keys:
  assumes "importMetadata [] cur = Inr (ts, out)"
  shows "distinct (map fst ts)"
  using assms
proof (rule importMetadata_passes)
  fix ts2 ts3 ts4
  let ?ts1 = "foldl (\<lambda>ts row. import_table row ts) [] (show_tables cur)"
  assume p2: "for_rows import_column (show_columns cur) ?ts1 = Inr ts2"
    and p3: "for_rows import_unique (show_unique_keys cur) ts2 = Inr ts3"
    and p4: "import_pks (show_primary_keys cur) ts3 = Inr ts4"
    and p5: "for_rows import_fk (show_imported_keys cur) (ts4, []) = Inr (ts, out)"
  have "distinct (map fst ?ts1)"
    by (rule distinct_import_tables) simp
  moreover have "map fst ts2 = map fst ?ts1"
    using p2 keys_import_column by (rule keys_for_rows)
  moreover have "map fst ts3 = map fst ts2"
    using p3 keys_import_unique by (rule keys_for_rows)
  moreover have "map fst ts4 = map fst ts3"
    using p4 [unfolded import_pks_def] keys_import_pk by (rule keys_for_rows)
  moreover have "map fst ts = map fst ts4"
    using p5 by (rule keys_import_fks)
  ultimately show ?thesis by simp
qed

subsection \<open>Foreign keys and the \<open>ispk\<close> flag\<close>

lemma import_fk_ok_all:
  assumes imp: "importMetadata [] cur = Inr (ts, out)" and cover: "key_rows_cover cur"
  shows "fk_ok ts"
  using imp
proof (rule importMetadata_passes)
  fix ts2 ts3 ts4
  let ?ts1 = "foldl (\<lambda>ts row. import_table row ts) [] (show_tables cur)"
  assume p2: "for_rows import_column (show_columns cur) ?ts1 = Inr ts2"
    and p3: "for_rows import_unique (show_unique_keys cur) ts2 = Inr ts3"
    and p4: "import_pks (show_primary_keys cur) ts3 = Inr ts4"
    and p5: "for_rows import_fk (show_imported_keys cur) (ts4, []) = Inr (ts, out)"
  have "no_fk ?ts1"
    by (rule no_fk_import_tables) (rule no_fk_empty)
  with p2 have "no_fk ts2"
    by (rule for_rows_induct) (rule no_fk_import_column)
  with p3 have "no_fk ts3"
    by (rule for_rows_induct) (rule no_fk_import_unique)
  with p4 [unfolded import_pks_def] have "no_fk ts4"
    by (rule for_rows_induct) (rule no_fk_import_pk)
  then have ok4: "fk_ok ts4" by (rule no_fk_fk_ok)
  have m: "marked (flags ts4) (fr_pk_table r) (fr_pk_column r)"
    if r: "r \<in> set (show_imported_keys cur)" and s: "fr_pk_schema r = fr_fk_schema r" for r
  proof -
    from cover r s obtain p where p: "p \<in> set (show_primary_keys cur)"
      and "pr_table p = fr_pk_table r" and "pr_column p = fr_pk_column r"
      by (auto simp: key_rows_cover_def list_all_iff list_ex_iff)
    with import_pks_marks [OF p4 p] show ?thesis by simp
  qed
  from p5 ok4 m show "fk_ok ts" by (rule import_fks_ok)
qed

text \<open>
  C9, as the claim states it, fails: \<open>importMetadata\<close> never compares a foreign-key row with
  the primary-key rows. In \<open>unique_parent_catalog\<close> the column \<open>C.PID\<close> ends with \<open>fkof\<close> set to
  the column \<open>P.ID\<close>, whose \<open>ispk\<close> is false.
\<close>

theorem fkof_unique_parent_counterexample:
  "map_sum id (\<lambda>(ts, out). column_summary ts) (importMetadata [] unique_parent_catalog) =
     Inr [(''P'', [(''ID'', False, None)]), (''C'', [(''PID'', False, Some (''P'', 0))])]
   \<and> map_sum id (\<lambda>(ts, out). fk_targets_pk ts) (importMetadata [] unique_parent_catalog) =
     Inr False"
  by code_simp

text \<open>
  C9, amended. When every foreign-key row that gets linked (its two schema fields are equal)
  has its parent table and parent column named by a primary-key row of the catalog, then
  after import completes every column whose \<open>fkof\<close> is set references a column that has
  \<open>ispk\<close> true on its own table.
\<close>

theorem fkof_targets_pk:
  assumes "importMetadata [] cur = Inr (ts, out)" and "key_rows_cover cur"
  shows "fk_targets_pk ts"
proof -
  have ok: "fk_ok ts"
    using assms by (rule import_fk_ok_all)
  have d: "distinct (map fst ts)"
    using assms(1) by (rule import_distinct_keys)
  have "fkof_is_pk ts (fkof c)" if "(k, t) \<in> set ts" and "c \<in> set (columns t)" for k t c
  proof -
    from d that(1) have "map_of ts k = Some t" by simp
    with ok that(2) show ?thesis
      by (auto simp: fk_ok_def fkof_is_pk_target_ok)
  qed
  then show ?thesis
    by (auto simp: fk_targets_pk_def list_all_iff)
qed

theorem fkof_targets_pk_witness:
  "key_rows_cover shop_catalog \<and> fk_targets_pk shop"
proof
  show c: "key_rows_cover shop_catalog"
    by code_simp
  from shop_import have "importMetadata [] shop_catalog = Inr (shop, [])"
    by (simp add: shop_eq)
  then show "fk_targets_pk shop"
    using c by (rule fkof_targets_pk)
qed

subsection \<open>Foreign keys across schemas\<close>

text \<open>
  The branch that warns and skips (lines 257 and 258) is reached by a row whose parent table
  name, child table name and child column name all resolve in the dictionary: the row then
  prints the warning and leaves the dictionary as it is, and the loop goes on with the next
  row. \<open>cross_schema_row\<close> is such a row for the shop: its parent, reported in schema OTHER,
  has the name of a table of the current schema.
\<close>

lemma cross_schema_resolved:
  assumes "fr_pk_schema row \<noteq> fr_fk_schema row"
    and "map_of ts (fr_pk_table row) = Some pktable"
    and "map_of ts (fr_fk_table row) = Some fktable"
    and "getColumn fktable (fr_fk_column row) = Some i"
  shows "import_fk row (ts, out) =
           Inr (ts, out @ [''??? Relationship accross schemas, for '' @ name fktable @ ''.''
                           @ cname (columns fktable ! i) @ ''!''])
         \<and> for_rows import_fk (row # rows) (ts, out) =
           for_rows import_fk rows
             (ts, out @ [''??? Relationship accross schemas, for '' @ name fktable @ ''.''
                         @ cname (columns fktable ! i) @ ''!''])"
proof -
  have step: "import_fk row (ts, out) =
      Inr (ts, out @ [''??? Relationship accross schemas, for '' @ name fktable @ ''.''
                      @ cname (columns fktable ! i) @ ''!''])"
    using assms by (simp add: import_fk_def)
  then show ?thesis by simp
qed

lemma cross_schema_resolved_shop:
  "import_fk cross_schema_row (shop, []) =
     Inr (shop, [''??? Relationship accross schemas, for ORDERS.CUSTOMER_ID!''])"
proof -
  have s: "fr_pk_schema cross_schema_row \<noteq> fr_fk_schema cross_schema_row"
    by (simp add: cross_schema_row_def)
  have p: "map_of shop (fr_pk_table cross_schema_row) = Some (shop_table ''CUSTOMER'')"
    by (simp add: cross_schema_row_def shop_tables) (simp add: shop_eq)
  have f: "map_of shop (fr_fk_table cross_schema_row) = Some (shop_table ''ORDERS'')"
    by (simp add: cross_schema_row_def shop_tables) (simp add: shop_eq)
  have c: "getColumn (shop_table ''ORDERS'') (fr_fk_column cross_schema_row) = Some 1"
    by (simp add: cross_schema_row_def shop_tables getColumn_def)
  from cross_schema_resolved [OF s p f c, of "[]" "[]"] show ?thesis
    by (simp add: shop_tables)
qed

text \<open>
  The parent table is looked up first (line 252), whatever the schemas: a row whose parent
  table is not in the dictionary raises \<open>KeyError\<close>. The keys of the dictionary are the
  names listed by \<open>show tables\<close>, so an import succeeds only on a catalog in which the
  parent table of every foreign-key row is listed.
\<close>

lemma import_fk_parent_missing:
  assumes "map_of ts (fr_pk_table row) = None"
  shows "import_fk row (ts, out) = Inl (KeyError (fr_pk_table row))"
  using assms by (simp add: import_fk_def)

lemma import_fk_parent_listed:
  assumes "import_fk row (ts, out) = Inr st"
  shows "fr_pk_table row \<in> set (map fst ts)"
proof -
  have "map_of ts (fr_pk_table row) \<noteq> None"
    using assms import_fk_parent_missing [of ts row out] by auto
  then show ?thesis by (simp add: map_of_eq_None_iff)
qed

lemma keys_import_tables:
  "set (map fst (foldl (\<lambda>ts row. import_table row ts) ts rows)) =
     set (map fst ts) \<union> tr_name ` set rows"
proof (induction rows arbitrary: ts)
  case Nil
  then show ?case by simp
next
  case (Cons row rows)
  have "set (map fst (import_table row ts)) = insert (tr_name row) (set (map fst ts))"
    by (auto simp: import_table_def Let_def keys_map_entry update_keys)
  with Cons.IH [of "import_table row ts"] show ?case by auto
qed

lemma for_rows_member:
  assumes "for_rows f rows s = Inr s'" and "P s"
    and "\<And>r a b. P a \<Longrightarrow> f r a = Inr b \<Longrightarrow> P b"
    and "r \<in> set rows"
  shows "\<exists>a b. P a \<and> f r a = Inr b"
  using assms(1,2,4)
proof (induction rows arbitrary: s)
  case Nil
  then show ?case by simp
next
  case (Cons x rows)
  from Cons.prems(1) obtain m where m: "f x s = Inr m" and rest: "for_rows f rows m = Inr s'"
    by (auto split: sum.splits)
  show ?case
  proof (cases "r = x")
    case True
    with m Cons.prems(2) show ?thesis by blast
  next
    case False
    with Cons.prems(3) have "r \<in> set rows" by simp
    moreover have "P m" using assms(3) Cons.prems(2) m by blast
    ultimately show ?thesis using rest by (intro Cons.IH [of m])
  qed
qed

lemma imported_parents_listed:
  assumes imp: "importMetadata [] cur = Inr (ts, out)"
    and r: "r \<in> set (show_imported_keys cur)"
  shows "fr_pk_table r \<in> tr_name ` set (show_tables cur)"
  using imp
proof (rule importMetadata_passes)
  fix ts2 ts3 ts4
  let ?ts1 = "foldl (\<lambda>ts row. import_table row ts) [] (show_tables cur)"
  assume p2: "for_rows import_column (show_columns cur) ?ts1 = Inr ts2"
    and p3: "for_rows import_unique (show_unique_keys cur) ts2 = Inr ts3"
    and p4: "import_pks (show_primary_keys cur) ts3 = Inr ts4"
    and p5: "for_rows import_fk (show_imported_keys cur) (ts4, []) = Inr (ts, out)"
  have k1: "set (map fst ?ts1) = tr_name ` set (show_tables cur)"
    using keys_import_tables [of "[]" "show_tables cur"] by simp
  have k2: "map fst ts2 = map fst ?ts1"
    using p2 keys_import_column by (rule keys_for_rows)
  have k3: "map fst ts3 = map fst ts2"
    using p3 keys_import_unique by (rule keys_for_rows)
  have k4: "map fst ts4 = map fst ts3"
    using p4 [unfolded import_pks_def] keys_import_pk by (rule keys_for_rows)
  have "\<exists>a b. map fst (fst a) = map fst ts4 \<and> import_fk r a = Inr b"
    using p5
  proof (rule for_rows_member)
    show "map fst (fst (ts4, [])) = map fst ts4" by simp
  next
    fix x a b
    assume a: "map fst (fst a) = map fst ts4" and step: "import_fk x a = Inr b"
    from step have "import_fk x (fst a, snd a) = Inr (fst b, snd b)" by simp
    then have "map fst (fst b) = map fst (fst a)" by (rule keys_import_fk)
    with a show "map fst (fst b) = map fst ts4" by simp
  next
    show "r \<in> set (show_imported_keys cur)" by (rule r)
  qed
  then obtain a b where a: "map fst (fst a) = map fst ts4" and step: "import_fk r a = Inr b"
    by blast
  from step have "import_fk r (fst a, snd a) = Inr b" by simp
  then have "fr_pk_table r \<in> set (map fst (fst a))" by (rule import_fk_parent_listed)
  with a k4 k3 k2 k1 show ?thesis by simp
qed

text \<open>
  C1. The claim has every foreign-key row whose parent-schema field differs from its
  child-schema field end in a warning, with nothing linked and no fatal error. In
  \<open>cross_schema_catalog\<close> the schema PUBLIC holds the table CHILD, and the one foreign-key
  row names the parent PARENT of schema OTHER, which \<open>show tables\<close> does not list. The
  import does not reach the comparison of the schemas: it stops with the \<open>KeyError\<close> of
  \<open>tables[str(row[3])]\<close>, where the claim has a warning and a completed import.
\<close>

theorem cross_schema_parent_missing:
  "map (\<lambda>r. (fr_pk_schema r, fr_pk_table r, fr_fk_schema r, fr_fk_table r))
       (show_imported_keys cross_schema_catalog) = [(''OTHER'', ''PARENT'', ''PUBLIC'', ''CHILD'')]
   \<and> map tr_name (show_tables cross_schema_catalog) = [''CHILD'']
   \<and> importMetadata [] cross_schema_catalog = Inl (KeyError ''PARENT'')"
  by code_simp

subsection \<open>The order of the primary-key columns\<close>

lemma list_insert_end: "list_insert (int (length xs)) x xs = xs @ [x]"
  by (simp add: list_insert_def)

lemma list_insert_ascending:
  "foldl (\<lambda>xs (k, x). list_insert (int k) x xs) [] (zip [0..<length ys] ys) = ys"
proof (induction ys rule: rev_induct)
  case Nil
  then show ?case by simp
next
  case (snoc y ys)
  have "zip [0..<length (ys @ [y])] (ys @ [y]) = zip [0..<length ys] ys @ [(length ys, y)]"
    by simp
  with snoc show ?case
    by (simp add: list_insert_end)
qed

lemma import_pk_lookup:
  assumes "import_pk r ts = Inr m"
  shows "\<exists>t i. map_of ts (pr_table r) = Some t \<and> getColumn t (pr_column r) = Some i \<and>
           (\<forall>k. map_of m k =
              (if k = pr_table r
               then Some ((set_column i (\<lambda>c. c\<lparr>ispk := True\<rparr>) t)
                            \<lparr>pks := list_insert (pr_key_sequence r - 1) i (pks t)\<rparr>)
               else map_of ts k))"
proof -
  from assms obtain t i where t: "map_of ts (pr_table r) = Some t"
    and i: "getColumn t (pr_column r) = Some i"
    and m: "m = AList.map_entry (pr_table r)
        (\<lambda>t. (set_column i (\<lambda>c. c\<lparr>ispk := True\<rparr>) t)
                \<lparr>pks := list_insert (pr_key_sequence r - 1) i (pks t)\<rparr>) ts"
    by (auto simp: import_pk_def Let_def split: option.splits if_splits)
  have "\<forall>k. map_of m k =
      (if k = pr_table r
       then Some ((set_column i (\<lambda>c. c\<lparr>ispk := True\<rparr>) t)
                    \<lparr>pks := list_insert (pr_key_sequence r - 1) i (pks t)\<rparr>)
       else map_of ts k)"
    using t by (simp add: m lookup_map_entry)
  with t i show ?thesis by blast
qed

lemma length_list_insert: "length (list_insert p x xs) = Suc (length xs)"
  by (simp add: list_insert_def Let_def)

lemma getColumn_ispk_set:
  "getColumn ((set_column i (\<lambda>c. c\<lparr>ispk := True\<rparr>) t)\<lparr>pks := p\<rparr>) n = getColumn t n"
proof -
  have "map fst (key_flags ((set_column i (\<lambda>c. c\<lparr>ispk := True\<rparr>) t)\<lparr>pks := p\<rparr>)) =
      map fst (key_flags t)"
    by (simp add: key_flags_def set_column_def map_update comp_def map_update_same)
  then show ?thesis by (simp add: getColumn_key_flags)
qed

lemma import_pks_keeps_prefix:
  assumes "import_pks rows ts = Inr ts'" and "map_of ts k = Some t"
  shows "\<exists>t'. map_of ts' k = Some t' \<and> (\<forall>n. getColumn t' n = getColumn t n) \<and>
           (ascending_from seen rows \<longrightarrow>
            (\<forall>k u. map_of ts k = Some u \<longrightarrow> length (pks u) = seen k) \<longrightarrow>
            (\<exists>more. pks t' = pks t @ more))"
  using assms
proof (induction rows arbitrary: ts t seen)
  case Nil
  then show ?case by (simp add: import_pks_def)
next
  case (Cons r rows)
  from Cons.prems(1) obtain m where step: "import_pk r ts = Inr m"
    and rest: "import_pks rows m = Inr ts'"
    by (auto simp: import_pks_def split: sum.splits)
  from import_pk_lookup [OF step] obtain u i where u: "map_of ts (pr_table r) = Some u"
    and i: "getColumn u (pr_column r) = Some i"
    and m: "\<And>k. map_of m k =
          (if k = pr_table r
           then Some ((set_column i (\<lambda>c. c\<lparr>ispk := True\<rparr>) u)
                        \<lparr>pks := list_insert (pr_key_sequence r - 1) i (pks u)\<rparr>)
           else map_of ts k)"
    by blast
  let ?seen = "seen(pr_table r := Suc (seen (pr_table r)))"
  obtain tm where tm: "map_of m k = Some tm" and names: "\<forall>n. getColumn tm n = getColumn t n"
    and grow: "pr_key_sequence r = int (seen (pr_table r)) + 1 \<longrightarrow>
        (\<forall>k u. map_of ts k = Some u \<longrightarrow> length (pks u) = seen k) \<longrightarrow>
        (\<exists>more. pks tm = pks t @ more) \<and>
        (\<forall>k u. map_of m k = Some u \<longrightarrow> length (pks u) = ?seen k)"
  proof (cases "k = pr_table r")
    case False
    have "pr_key_sequence r = int (seen (pr_table r)) + 1 \<longrightarrow>
        (\<forall>k u. map_of ts k = Some u \<longrightarrow> length (pks u) = seen k) \<longrightarrow>
        (\<exists>more. pks t = pks t @ more) \<and>
        (\<forall>k u. map_of m k = Some u \<longrightarrow> length (pks u) = ?seen k)"
      using u by (auto simp: m length_list_insert)
    with False Cons.prems(2) show ?thesis
      by (intro that [of t]) (simp_all add: m)
  next
    case True
    with Cons.prems(2) u have tu: "t = u" by simp
    let ?tm = "(set_column i (\<lambda>c. c\<lparr>ispk := True\<rparr>) u)
        \<lparr>pks := list_insert (pr_key_sequence r - 1) i (pks u)\<rparr>"
    have "pr_key_sequence r = int (seen (pr_table r)) + 1 \<longrightarrow>
        (\<forall>k u. map_of ts k = Some u \<longrightarrow> length (pks u) = seen k) \<longrightarrow>
        (\<exists>more. pks ?tm = pks t @ more) \<and>
        (\<forall>k u. map_of m k = Some u \<longrightarrow> length (pks u) = ?seen k)"
    proof (intro impI)
      assume pos: "pr_key_sequence r = int (seen (pr_table r)) + 1"
        and lens: "\<forall>k u. map_of ts k = Some u \<longrightarrow> length (pks u) = seen k"
      from lens u have "seen (pr_table r) = length (pks u)" by simp
      with pos have "pks ?tm = pks u @ [i]"
        by (simp add: list_insert_end)
      with tu have "\<exists>more. pks ?tm = pks t @ more" by blast
      moreover have "\<forall>k u. map_of m k = Some u \<longrightarrow> length (pks u) = ?seen k"
        using lens u by (auto simp: m length_list_insert)
      ultimately show "(\<exists>more. pks ?tm = pks t @ more) \<and>
          (\<forall>k u. map_of m k = Some u \<longrightarrow> length (pks u) = ?seen k)"
        by blast
    qed
    with True show ?thesis
      by (intro that [of ?tm]) (simp_all add: m tu getColumn_ispk_set)
  qed
  from Cons.IH [OF rest tm, of ?seen] obtain t' where t': "map_of ts' k = Some t'"
    and names': "\<forall>n. getColumn t' n = getColumn tm n"
    and grow': "ascending_from ?seen rows \<longrightarrow>
        (\<forall>k u. map_of m k = Some u \<longrightarrow> length (pks u) = ?seen k) \<longrightarrow>
        (\<exists>more. pks t' = pks tm @ more)"
    by blast
  have "ascending_from seen (r # rows) \<longrightarrow>
      (\<forall>k u. map_of ts k = Some u \<longrightarrow> length (pks u) = seen k) \<longrightarrow>
      (\<exists>more. pks t' = pks t @ more)"
    using grow grow' by auto
  with t' names names' show ?case by auto
qed

text \<open>
  When the primary-key rows arrive in ascending order and no table has a key column yet,
  the column of every row ends at the index one below its position.
\<close>

lemma import_pks_ascending:
  assumes "import_pks rows ts = Inr ts'" and "ascending_from seen rows"
    and "\<forall>k u. map_of ts k = Some u \<longrightarrow> length (pks u) = seen k" and "r \<in> set rows"
  shows "\<exists>t i. map_of ts' (pr_table r) = Some t \<and> getColumn t (pr_column r) = Some i \<and>
           nat (pr_key_sequence r - 1) < length (pks t) \<and>
           pks t ! nat (pr_key_sequence r - 1) = i"
  using assms
proof (induction rows arbitrary: ts seen)
  case Nil
  then show ?case by simp
next
  case (Cons r0 rows)
  from Cons.prems(1) obtain m where step: "import_pk r0 ts = Inr m"
    and rest: "import_pks rows m = Inr ts'"
    by (auto simp: import_pks_def split: sum.splits)
  from import_pk_lookup [OF step] obtain u i where u: "map_of ts (pr_table r0) = Some u"
    and i: "getColumn u (pr_column r0) = Some i"
    and m: "\<And>k. map_of m k =
          (if k = pr_table r0
           then Some ((set_column i (\<lambda>c. c\<lparr>ispk := True\<rparr>) u)
                        \<lparr>pks := list_insert (pr_key_sequence r0 - 1) i (pks u)\<rparr>)
           else map_of ts k)"
    by blast
  let ?seen = "seen(pr_table r0 := Suc (seen (pr_table r0)))"
  let ?tm = "(set_column i (\<lambda>c. c\<lparr>ispk := True\<rparr>) u)
      \<lparr>pks := list_insert (pr_key_sequence r0 - 1) i (pks u)\<rparr>"
  from Cons.prems(2) have pos: "pr_key_sequence r0 = int (seen (pr_table r0)) + 1"
    and asc: "ascending_from ?seen rows"
    by simp_all
  from Cons.prems(3) u have lu: "length (pks u) = seen (pr_table r0)"
    by simp
  have pm: "pks ?tm = pks u @ [i]"
    using pos lu [symmetric] by (simp add: list_insert_end)
  have lens: "\<forall>k v. map_of m k = Some v \<longrightarrow> length (pks v) = ?seen k"
    using Cons.prems(3) pm lu by (auto simp: m)
  show ?case
  proof (cases "r \<in> set rows")
    case True
    from Cons.IH [OF rest asc lens True] show ?thesis .
  next
    case False
    with Cons.prems(4) have r: "r = r0" by simp
    have tm: "map_of m (pr_table r0) = Some ?tm"
      by (simp add: m)
    from import_pks_keeps_prefix [OF rest tm, of ?seen] asc lens
    obtain t' more where t': "map_of ts' (pr_table r0) = Some t'"
      and names: "\<forall>n. getColumn t' n = getColumn ?tm n"
      and pre: "pks t' = pks ?tm @ more"
      by blast
    have "getColumn t' (pr_column r0) = Some i"
      using names i by (simp add: getColumn_ispk_set)
    moreover have "nat (pr_key_sequence r0 - 1) = length (pks u)"
      using pos lu by simp
    moreover have "pks t' = pks u @ i # more"
      using pre pm by simp
    ultimately show ?thesis
      using t' r by (auto simp: nth_append)
  qed
qed

lemma no_pks_import_table:
  assumes "\<forall>k t. map_of ts k = Some t \<longrightarrow> pks t = []"
  shows "\<forall>k t. map_of (import_table row ts) k = Some t \<longrightarrow> pks t = []"
  using assms
  by (auto simp: import_table_def Let_def lookup_map_entry update_conv' Table_init_def
      split: if_splits)

lemma no_pks_import_tables:
  assumes "\<forall>k t. map_of ts k = Some t \<longrightarrow> pks t = []"
  shows "\<forall>k t. map_of (foldl (\<lambda>ts row. import_table row ts) ts rows) k = Some t \<longrightarrow> pks t = []"
  using assms
proof (induction rows arbitrary: ts)
  case Nil
  then show ?case by simp
next
  case (Cons r rows)
  from no_pks_import_table [OF Cons.prems] have
    "\<forall>k t. map_of (import_table r ts) k = Some t \<longrightarrow> pks t = []" .
  from Cons.IH [OF this] show ?case by simp
qed

lemma no_pks_import_column:
  assumes "import_column row ts = Inr ts'" and "\<forall>k t. map_of ts k = Some t \<longrightarrow> pks t = []"
  shows "\<forall>k t. map_of ts' k = Some t \<longrightarrow> pks t = []"
  using assms
  by (auto simp: import_column_def lookup_map_entry split: option.splits sum.splits if_splits)

lemma no_pks_import_unique:
  assumes "import_unique row ts = Inr ts'" and "\<forall>k t. map_of ts k = Some t \<longrightarrow> pks t = []"
  shows "\<forall>k t. map_of ts' k = Some t \<longrightarrow> pks t = []"
  using assms
  by (auto simp: import_unique_def lookup_map_entry set_column_def
      split: option.splits if_splits)

lemma import_fk_keeps_keys:
  assumes "import_fk row (ts, out) = Inr (ts', out')"
  shows "map_option (\<lambda>t. (pks t, key_flags t)) (map_of ts' k) =
         map_option (\<lambda>t. (pks t, key_flags t)) (map_of ts k)"
  using assms
proof (cases rule: import_fk_cases)
  case skip
  then show ?thesis by simp
next
  case (link pt ft i)
  have "pks (set_column i f (t\<lparr>fks := d\<rparr>)) = pks t" for f d and t :: Table
    by (simp add: set_column_def)
  then show ?thesis
    by (simp add: link(5) lookup_map_entry key_flags_fk option.map_comp comp_def)
qed

lemma import_fks_keep_keys:
  assumes "for_rows import_fk rows (ts, out) = Inr (ts', out')"
  shows "map_option (\<lambda>t. (pks t, key_flags t)) (map_of ts' k) =
         map_option (\<lambda>t. (pks t, key_flags t)) (map_of ts k)"
proof -
  have "map_option (\<lambda>t. (pks t, key_flags t)) (map_of (fst (ts', out')) k) =
      map_option (\<lambda>t. (pks t, key_flags t)) (map_of ts k)"
    using assms
  proof (rule for_rows_induct)
    show "map_option (\<lambda>t. (pks t, key_flags t)) (map_of (fst (ts, out)) k) =
        map_option (\<lambda>t. (pks t, key_flags t)) (map_of ts k)"
      by simp
  next
    fix r a b
    assume a: "map_option (\<lambda>t. (pks t, key_flags t)) (map_of (fst a) k) =
        map_option (\<lambda>t. (pks t, key_flags t)) (map_of ts k)"
      and step: "import_fk r a = Inr b"
    from step have "import_fk r (fst a, snd a) = Inr (fst b, snd b)" by simp
    from import_fk_keeps_keys [OF this, of k] a
    show "map_option (\<lambda>t. (pks t, key_flags t)) (map_of (fst b) k) =
        map_option (\<lambda>t. (pks t, key_flags t)) (map_of ts k)"
      by simp
  qed
  then show ?thesis by simp
qed

text \<open>
  When the primary-key rows of the catalog arrive in ascending order, after import the
  column of every primary-key row is at the index one below its position in the \<open>pks\<close> of
  its table.
\<close>

lemma import_ascending_keys:
  assumes imp: "importMetadata [] cur = Inr (ts, out)"
    and asc: "ascending_from (\<lambda>k. 0) (show_primary_keys cur)"
    and r: "r \<in> set (show_primary_keys cur)"
  shows "\<exists>t i. map_of ts (pr_table r) = Some t \<and> getColumn t (pr_column r) = Some i \<and>
           nat (pr_key_sequence r - 1) < length (pks t) \<and>
           pks t ! nat (pr_key_sequence r - 1) = i"
  using imp
proof (rule importMetadata_passes)
  fix ts2 ts3 ts4
  let ?ts1 = "foldl (\<lambda>ts row. import_table row ts) [] (show_tables cur)"
  assume p2: "for_rows import_column (show_columns cur) ?ts1 = Inr ts2"
    and p3: "for_rows import_unique (show_unique_keys cur) ts2 = Inr ts3"
    and p4: "import_pks (show_primary_keys cur) ts3 = Inr ts4"
    and p5: "for_rows import_fk (show_imported_keys cur) (ts4, []) = Inr (ts, out)"
  have "\<forall>k t. map_of ?ts1 k = Some t \<longrightarrow> pks t = []"
    by (rule no_pks_import_tables) simp
  with p2 have "\<forall>k t. map_of ts2 k = Some t \<longrightarrow> pks t = []"
    by (rule for_rows_induct) (rule no_pks_import_column)
  with p3 have "\<forall>k t. map_of ts3 k = Some t \<longrightarrow> pks t = []"
    by (rule for_rows_induct) (rule no_pks_import_unique)
  then have "\<forall>k u. map_of ts3 k = Some u \<longrightarrow> length (pks u) = (\<lambda>k. 0) k"
    by simp
  from import_pks_ascending [OF p4 asc this r] obtain t4 i where
    t4: "map_of ts4 (pr_table r) = Some t4" and i: "getColumn t4 (pr_column r) = Some i"
    and at: "nat (pr_key_sequence r - 1) < length (pks t4)"
      "pks t4 ! nat (pr_key_sequence r - 1) = i"
    by blast
  from import_fks_keep_keys [OF p5, of "pr_table r"] t4 obtain t where
    t: "map_of ts (pr_table r) = Some t" and same: "pks t = pks t4" "key_flags t = key_flags t4"
    by (auto simp: map_option_case split: option.splits)
  from same(2) i have "getColumn t (pr_column r) = Some i"
    by (simp add: getColumn_key_flags)
  with t at same(1) show ?thesis by simp
qed

text \<open>
  C8. The claim: whatever the order in which the primary-key rows of a table arrive, the
  column with key position k ends at index k-1 of \<open>pks\<close>. For \<open>keys_descending\<close>, where the
  rows of positions 3, 2, 1 (columns C, B, A) arrive in that order, \<open>pks\<close> is A, C, B: the
  column of position 2 is at index 2 and the column of position 3 at index 1. (Rows that
  arrive in ascending order do end in position order: \<open>import_ascending_keys\<close>.)
\<close>

theorem pks_descending_arrival:
  "map_sum id (\<lambda>(ts, out). pk_names ts) (importMetadata [] keys_descending) =
     Inr [(''T'', [''A'', ''C'', ''B''])]"
  by code_simp

subsection \<open>Import builds a dictionary whose handles name objects\<close>

lemma refs_ok_mono: "n \<le> m \<Longrightarrow> refs_ok n d \<Longrightarrow> refs_ok m d"
  by (fastforce simp: refs_ok_def list_all_iff)

lemma constraint_append_new:
  assumes "map_of d c = None"
  shows "constraint_append c i d = d @ [(c, [i])]"
proof -
  have "AList.map_entry c (\<lambda>members. members @ [i]) (AList.update c [] d) = d @ [(c, [i])]"
    using assms by (induction d) (auto split: if_splits)
  with assms show ?thesis by (simp add: constraint_append_def)
qed

lemma constraint_append_old:
  assumes "map_of d c = Some js"
  shows "constraint_append c i d = AList.map_entry c (\<lambda>members. members @ [i]) d"
  using assms by (simp add: constraint_append_def)

lemma list_all_map_entry:
  assumes "list_all P d" and "\<And>v. P (k, v) \<Longrightarrow> P (k, f v)"
  shows "list_all P (AList.map_entry k f d)"
  using assms by (induction d) auto

lemma refs_ok_append:
  assumes "i < n" and "refs_ok n d"
  shows "refs_ok n (constraint_append c i d)"
proof (cases "map_of d c")
  case None
  then have "c \<notin> fst ` set d" by (simp add: map_of_eq_None_iff)
  with assms None show ?thesis
    by (simp add: constraint_append_new refs_ok_def)
next
  case (Some js)
  have "list_all (\<lambda>(c, js). js \<noteq> [] \<and> list_all (\<lambda>i. i < n) js)
      (AList.map_entry c (\<lambda>members. members @ [i]) d)"
    using assms by (intro list_all_map_entry) (auto simp: refs_ok_def)
  with assms Some show ?thesis
    by (simp add: constraint_append_old refs_ok_def keys_map_entry)
qed

lemma set_list_insert: "set (list_insert p x xs) = insert x (set xs)"
proof -
  have "set (take n xs @ x # drop n xs) = insert x (set xs)" for n
  proof -
    have "set (take n xs) \<union> set (drop n xs) = set xs"
      by (metis append_take_drop_id set_append)
    moreover have "set (take n xs @ x # drop n xs) =
        insert x (set (take n xs) \<union> set (drop n xs))"
      by simp
    ultimately show ?thesis by simp
  qed
  then show ?thesis by (simp add: list_insert_def Let_def)
qed

lemma table_wf_init: "table_wf k ((Table_init n c)\<lparr>label := l\<rparr>)"
  by (simp add: table_wf_def Table_init_def refs_ok_def)

lemma table_wf_new_column:
  assumes "table_wf k t" and "table c = k"
  shows "table_wf k (t\<lparr>columns := columns t @ [c]\<rparr>)"
proof -
  have "refs_ok (Suc (length (columns t))) d" if "refs_ok (length (columns t)) d" for d
    using that by (intro refs_ok_mono [OF _ that]) simp
  with assms show ?thesis
    by (auto simp: table_wf_def list_all_iff nth_append)
qed

lemma table_wf_set_column:
  assumes wf: "table_wf k t" and tb: "\<And>c. table (f c) = table c"
    and pk: "\<And>c. ispk c \<Longrightarrow> ispk (f c)"
  shows "table_wf k (set_column i f t)"
proof -
  let ?cs = "(columns t)[i := f (columns t ! i)]"
  have len: "length ?cs = length (columns t)" by simp
  have owner: "list_all (\<lambda>c. table c = k) ?cs"
  proof (cases "i < length (columns t)")
    case True
    then have "table (f (columns t ! i)) = k"
      using wf tb by (simp add: table_wf_def list_all_iff)
    moreover have "set ?cs \<subseteq> insert (f (columns t ! i)) (set (columns t))"
      by (rule set_update_subset_insert)
    ultimately show ?thesis
      using wf by (auto simp: table_wf_def list_all_iff)
  next
    case False
    with wf show ?thesis by (simp add: table_wf_def list_update_beyond)
  qed
  have keys: "list_all (\<lambda>j. j < length ?cs \<and> ispk (?cs ! j)) (pks t)"
    unfolding list_all_iff
  proof
    fix j
    assume "j \<in> set (pks t)"
    with wf have j: "j < length (columns t)" and p: "ispk (columns t ! j)"
      by (simp_all add: table_wf_def list_all_iff)
    from j p pk have "ispk (?cs ! j)"
      by (cases "j = i") simp_all
    with j show "j < length ?cs \<and> ispk (?cs ! j)" by simp
  qed
  from wf owner keys show ?thesis
    by (simp add: table_wf_def set_column_def)
qed

lemma table_wf_uniques:
  assumes "table_wf k t" and "refs_ok (length (columns t)) d"
  shows "table_wf k (t\<lparr>uniques := d\<rparr>)"
  using assms by (simp add: table_wf_def)

lemma table_wf_fks:
  assumes "table_wf k t" and "refs_ok (length (columns t)) d"
  shows "table_wf k (t\<lparr>fks := d\<rparr>)"
  using assms by (simp add: table_wf_def)

lemma table_wf_pks:
  assumes "table_wf k t" and "i < length (columns t)" and "ispk (columns t ! i)"
  shows "table_wf k (t\<lparr>pks := list_insert p i (pks t)\<rparr>)"
  using assms by (simp add: table_wf_def list_all_iff set_list_insert)

lemma tables_wf_lookup:
  "tables_wf ts \<longleftrightarrow> distinct (map fst ts) \<and> (\<forall>k t. map_of ts k = Some t \<longrightarrow> table_wf k t)"
proof -
  have "(k, t) \<in> set ts \<longleftrightarrow> map_of ts k = Some t" if "distinct (map fst ts)" for k t
    using that by simp
  then show ?thesis
    by (auto simp: tables_wf_def list_all_iff)
qed

lemma tables_wf_map_entry:
  assumes wf: "tables_wf ts"
    and f: "\<And>t. map_of ts k = Some t \<Longrightarrow> table_wf k t \<Longrightarrow> table_wf k (f t)"
  shows "tables_wf (AList.map_entry k f ts)"
  unfolding tables_wf_lookup
proof (intro conjI allI impI)
  show "distinct (map fst (AList.map_entry k f ts))"
    using wf by (simp add: tables_wf_lookup keys_map_entry)
next
  fix k' t'
  assume l: "map_of (AList.map_entry k f ts) k' = Some t'"
  show "table_wf k' t'"
  proof (cases "k' = k")
    case False
    with l wf show ?thesis by (simp add: tables_wf_lookup lookup_map_entry)
  next
    case True
    with l obtain t where t: "map_of ts k = Some t" and t': "t' = f t"
      by (auto simp: lookup_map_entry)
    from wf t have "table_wf k t" by (simp add: tables_wf_lookup)
    with f t t' True show ?thesis by simp
  qed
qed

lemma tables_wf_import_table:
  assumes "tables_wf ts"
  shows "tables_wf (import_table row ts)"
proof -
  let ?n = "tr_name row"
  let ?ts1 = "AList.update ?n (Table_init ?n (tr_comment row)) ts"
  have d: "distinct (map fst ?ts1)"
    using assms by (simp add: tables_wf_lookup distinct_update)
  have "table_wf k t" if "map_of (import_table row ts) k = Some t" for k t
  proof (cases "k = ?n")
    case True
    with that have "t = (Table_init ?n (tr_comment row))\<lparr>label := ''n'' @ str_nat (length ?ts1)\<rparr>"
      by (simp add: import_table_def Let_def lookup_map_entry update_conv')
    with True show ?thesis by (simp add: table_wf_init)
  next
    case False
    with that have "map_of ts k = Some t"
      by (simp add: import_table_def Let_def lookup_map_entry update_conv')
    with assms show ?thesis by (simp add: tables_wf_lookup)
  qed
  with d show ?thesis
    by (simp add: tables_wf_lookup import_table_def Let_def keys_map_entry)
qed

lemma tables_wf_import_tables:
  assumes "tables_wf ts"
  shows "tables_wf (foldl (\<lambda>ts row. import_table row ts) ts rows)"
  using assms by (induction rows arbitrary: ts) (simp_all add: tables_wf_import_table)

lemma tables_wf_import_column:
  assumes "import_column row ts = Inr ts'" and "tables_wf ts"
  shows "tables_wf ts'"
proof -
  from assms(1) obtain dt nl where
    ts': "ts' = AList.map_entry (cr_table row)
        (\<lambda>t. t\<lparr>columns := columns t @
            [\<lparr>table = cr_table row, cname = cr_name row, ccomment = cr_comment row,
              nullable = nl, dtype = dt, identity = (cr_autoincrement row \<noteq> []),
              isunique = False, ispk = False, fkof = None\<rparr>]\<rparr>) ts"
    by (auto simp: import_column_def split: option.splits sum.splits)
  show ?thesis
    unfolding ts' using assms(2)
    by (rule tables_wf_map_entry) (simp add: table_wf_new_column)
qed

lemma tables_wf_import_unique:
  assumes "import_unique row ts = Inr ts'" and "tables_wf ts"
  shows "tables_wf ts'"
proof -
  from assms(1) obtain t i where t: "map_of ts (ur_table row) = Some t"
    and i: "getColumn t (ur_column row) = Some i"
    and ts': "ts' = AList.map_entry (ur_table row)
        (\<lambda>t. set_column i (\<lambda>c. c\<lparr>isunique := True\<rparr>)
               (t\<lparr>uniques := constraint_append (ur_constraint row) i (uniques t)\<rparr>)) ts"
    by (auto simp: import_unique_def split: option.splits)
  from i have bound: "i < length (columns t)"
    using getColumn_bound by blast
  show ?thesis
    unfolding ts' using assms(2)
  proof (rule tables_wf_map_entry)
    fix u
    assume "map_of ts (ur_table row) = Some u" and wf: "table_wf (ur_table row) u"
    with t have u: "u = t" by simp
    have "refs_ok (length (columns t)) (constraint_append (ur_constraint row) i (uniques t))"
      using bound wf u by (intro refs_ok_append) (simp_all add: table_wf_def)
    with wf u have "table_wf (ur_table row)
        (t\<lparr>uniques := constraint_append (ur_constraint row) i (uniques t)\<rparr>)"
      by (simp add: table_wf_uniques)
    then show "table_wf (ur_table row) (set_column i (\<lambda>c. c\<lparr>isunique := True\<rparr>)
        (u\<lparr>uniques := constraint_append (ur_constraint row) i (uniques u)\<rparr>))"
      unfolding u by (rule table_wf_set_column) simp_all
  qed
qed

lemma tables_wf_import_pk:
  assumes "import_pk row ts = Inr ts'" and "tables_wf ts"
  shows "tables_wf ts'"
proof -
  from assms(1) obtain t i where t: "map_of ts (pr_table row) = Some t"
    and i: "getColumn t (pr_column row) = Some i"
    and ts': "ts' = AList.map_entry (pr_table row)
        (\<lambda>t. (set_column i (\<lambda>c. c\<lparr>ispk := True\<rparr>) t)
                \<lparr>pks := list_insert (pr_key_sequence row - 1) i (pks t)\<rparr>) ts"
    by (auto simp: import_pk_def Let_def split: option.splits if_splits)
  from i have bound: "i < length (columns t)"
    using getColumn_bound by blast
  show ?thesis
    unfolding ts' using assms(2)
  proof (rule tables_wf_map_entry)
    fix u
    assume "map_of ts (pr_table row) = Some u" and wf: "table_wf (pr_table row) u"
    with t have u: "u = t" by simp
    let ?v = "set_column i (\<lambda>c. c\<lparr>ispk := True\<rparr>) t"
    have v: "table_wf (pr_table row) ?v"
      using wf [unfolded u] by (rule table_wf_set_column) simp_all
    have "table_wf (pr_table row) (?v\<lparr>pks := list_insert (pr_key_sequence row - 1) i (pks ?v)\<rparr>)"
      using v bound by (intro table_wf_pks) (simp_all add: set_column_def)
    then show "table_wf (pr_table row) ((set_column i (\<lambda>c. c\<lparr>ispk := True\<rparr>) u)
        \<lparr>pks := list_insert (pr_key_sequence row - 1) i (pks u)\<rparr>)"
      by (simp add: u set_column_def)
  qed
qed

lemma tables_wf_import_fk:
  assumes step: "import_fk row (ts, out) = Inr (ts', out')" and wf: "tables_wf ts"
  shows "tables_wf ts'"
  using step
proof (cases rule: import_fk_cases)
  case skip
  with wf show ?thesis by simp
next
  case (link pt ft i)
  from link(4) have bound: "i < length (columns ft)"
    using getColumn_bound by blast
  show ?thesis
    unfolding link(5) using wf
  proof (rule tables_wf_map_entry)
    fix u
    assume "map_of ts (fr_fk_table row) = Some u" and twf: "table_wf (fr_fk_table row) u"
    with link(3) have u: "u = ft" by simp
    have "refs_ok (length (columns ft)) (constraint_append (fr_fk_name row) i (fks ft))"
      using bound twf u by (intro refs_ok_append) (simp_all add: table_wf_def)
    with twf u have "table_wf (fr_fk_table row)
        (ft\<lparr>fks := constraint_append (fr_fk_name row) i (fks ft)\<rparr>)"
      by (simp add: table_wf_fks)
    then show "table_wf (fr_fk_table row)
        (set_column i
          (\<lambda>c. c\<lparr>fkof := map_option (Pair (fr_pk_table row)) (getColumn pt (fr_pk_column row))\<rparr>)
          (u\<lparr>fks := constraint_append (fr_fk_name row) i (fks u)\<rparr>))"
      unfolding u by (rule table_wf_set_column) simp_all
  qed
qed

lemma tables_wf_import_fks:
  assumes "for_rows import_fk rows (ts, out) = Inr (ts', out')" and "tables_wf ts"
  shows "tables_wf ts'"
proof -
  have "tables_wf (fst (ts', out'))"
    using assms(1)
  proof (rule for_rows_induct)
    show "tables_wf (fst (ts, out))" using assms(2) by simp
  next
    fix r a b
    assume a: "tables_wf (fst a)" and step: "import_fk r a = Inr b"
    from step have "import_fk r (fst a, snd a) = Inr (fst b, snd b)" by simp
    then show "tables_wf (fst b)" using a by (rule tables_wf_import_fk)
  qed
  then show ?thesis by simp
qed

lemma import_tables_wf:
  assumes "importMetadata [] cur = Inr (ts, out)"
  shows "tables_wf ts"
  using assms
proof (rule importMetadata_passes)
  fix ts2 ts3 ts4
  let ?ts1 = "foldl (\<lambda>ts row. import_table row ts) [] (show_tables cur)"
  assume p2: "for_rows import_column (show_columns cur) ?ts1 = Inr ts2"
    and p3: "for_rows import_unique (show_unique_keys cur) ts2 = Inr ts3"
    and p4: "import_pks (show_primary_keys cur) ts3 = Inr ts4"
    and p5: "for_rows import_fk (show_imported_keys cur) (ts4, []) = Inr (ts, out)"
  have "tables_wf ?ts1"
    by (rule tables_wf_import_tables) (simp add: tables_wf_def)
  with p2 have "tables_wf ts2"
    by (rule for_rows_induct) (rule tables_wf_import_column)
  with p3 have "tables_wf ts3"
    by (rule for_rows_induct) (rule tables_wf_import_unique)
  with p4 [unfolded import_pks_def] have "tables_wf ts4"
    by (rule for_rows_induct) (rule tables_wf_import_pk)
  with p5 show "tables_wf ts"
    by (rule tables_wf_import_fks)
qed

lemma imported_table:
  assumes "importMetadata [] cur = Inr (ts, out)" and "(k, t) \<in> set ts"
  shows "\<forall>c \<in> set (columns t). map_of ts (table c) = Some t"
    and "\<forall>i \<in> set (pks t). i < length (columns t) \<and> ispk (columns t ! i)"
    and "\<forall>(n, js) \<in> set (uniques t). \<forall>i \<in> set js. i < length (columns t)"
    and "distinct (map fst (fks t))"
proof -
  from assms(1) have wf: "tables_wf ts" by (rule import_tables_wf)
  then have d: "distinct (map fst ts)" by (simp add: tables_wf_def)
  with assms(2) have l: "map_of ts k = Some t" by simp
  from wf assms(2) have t: "table_wf k t"
    by (auto simp: tables_wf_def list_all_iff)
  from t l show "\<forall>c \<in> set (columns t). map_of ts (table c) = Some t"
    by (simp add: table_wf_def list_all_iff)
  from t show "\<forall>i \<in> set (pks t). i < length (columns t) \<and> ispk (columns t ! i)"
    by (simp add: table_wf_def list_all_iff)
  from t show "\<forall>(n, js) \<in> set (uniques t). \<forall>i \<in> set js. i < length (columns t)"
    by (auto simp: table_wf_def refs_ok_def list_all_iff)
  from t show "distinct (map fst (fks t))"
    by (simp add: table_wf_def refs_ok_def)
qed

subsection \<open>Every member column of a constraint has a parent\<close>

lemma set_map_entry:
  "(k', v') \<in> set (AList.map_entry k f d) \<Longrightarrow>
     (k', v') \<in> set d \<or> (k' = k \<and> (\<exists>v. (k, v) \<in> set d \<and> v' = f v))"
  by (induction d) (auto split: if_splits)

lemma constraint_append_members:
  assumes "(n', js') \<in> set (constraint_append n i d)" and "i' \<in> set js'"
  shows "i' = i \<or> (\<exists>js. (n', js) \<in> set d \<and> i' \<in> set js)"
proof (cases "map_of d n")
  case None
  with assms show ?thesis
    by (auto simp: constraint_append_new)
next
  case (Some js)
  with assms(1) have "(n', js') \<in> set (AList.map_entry n (\<lambda>members. members @ [i]) d)"
    by (simp add: constraint_append_old)
  from set_map_entry [OF this] assms(2) show ?thesis
    by auto
qed

lemma no_fks_import_table:
  assumes "\<forall>k t. map_of ts k = Some t \<longrightarrow> fks t = []"
  shows "\<forall>k t. map_of (import_table row ts) k = Some t \<longrightarrow> fks t = []"
  using assms
  by (auto simp: import_table_def Let_def lookup_map_entry update_conv' Table_init_def
      split: if_splits)

lemma no_fks_import_tables:
  assumes "\<forall>k t. map_of ts k = Some t \<longrightarrow> fks t = []"
  shows "\<forall>k t. map_of (foldl (\<lambda>ts row. import_table row ts) ts rows) k = Some t \<longrightarrow> fks t = []"
  using assms
proof (induction rows arbitrary: ts)
  case Nil
  then show ?case by simp
next
  case (Cons r rows)
  from no_fks_import_table [OF Cons.prems] have
    "\<forall>k t. map_of (import_table r ts) k = Some t \<longrightarrow> fks t = []" .
  from Cons.IH [OF this] show ?case by simp
qed

lemma no_fks_import_column:
  assumes "import_column row ts = Inr ts'" and "\<forall>k t. map_of ts k = Some t \<longrightarrow> fks t = []"
  shows "\<forall>k t. map_of ts' k = Some t \<longrightarrow> fks t = []"
  using assms
  by (auto simp: import_column_def lookup_map_entry split: option.splits sum.splits if_splits)

lemma no_fks_import_unique:
  assumes "import_unique row ts = Inr ts'" and "\<forall>k t. map_of ts k = Some t \<longrightarrow> fks t = []"
  shows "\<forall>k t. map_of ts' k = Some t \<longrightarrow> fks t = []"
  using assms
  by (auto simp: import_unique_def lookup_map_entry set_column_def
      split: option.splits if_splits)

lemma no_fks_import_pk:
  assumes "import_pk row ts = Inr ts'" and "\<forall>k t. map_of ts k = Some t \<longrightarrow> fks t = []"
  shows "\<forall>k t. map_of ts' k = Some t \<longrightarrow> fks t = []"
  using assms
  by (auto simp: import_pk_def Let_def lookup_map_entry set_column_def
      split: option.splits if_splits)

lemma lookup_keys: "map_of ts k \<noteq> None \<longleftrightarrow> k \<in> set (map fst ts)"
  by (simp add: map_of_eq_None_iff)

lemma import_fk_links:
  assumes step: "import_fk row (ts, out) = Inr (ts', out')" and ml: "members_linked ts"
    and res: "fr_pk_schema row = fr_fk_schema row \<Longrightarrow>
              \<forall>pt. map_of ts (fr_pk_table row) = Some pt \<longrightarrow>
                   getColumn pt (fr_pk_column row) \<noteq> None"
  shows "members_linked ts'"
  using step
proof (cases rule: import_fk_cases)
  case skip
  with ml show ?thesis by simp
next
  case (link pt ft i)
  from res [OF link(1)] link(2) obtain j where j: "getColumn pt (fr_pk_column row) = Some j"
    by auto
  from link(4) have bound: "i < length (columns ft)"
    using getColumn_bound by blast
  have keys: "map fst ts' = map fst ts"
    using step by (rule keys_import_fk)
  have there: "map_of ts' pn \<noteq> None" if "map_of ts pn \<noteq> None" for pn
  proof -
    from that have "pn \<in> set (map fst ts)" by (rule iffD1 [OF lookup_keys])
    then have "pn \<in> set (map fst ts')" by (simp only: keys)
    then show ?thesis by (rule iffD2 [OF lookup_keys])
  qed
  have parent: "map_of ts' (fr_pk_table row) \<noteq> None"
    using link(2) by (intro there) simp
  show ?thesis
    unfolding members_linked_def
  proof (intro allI impI)
    fix k t n js i'
    assume t: "map_of ts' k = Some t" and c: "(n, js) \<in> set (fks t)" and m: "i' \<in> set js"
    show "\<exists>pn j. fkof (columns t ! i') = Some (pn, j) \<and> map_of ts' pn \<noteq> None"
    proof (cases "k = fr_fk_table row")
      case False
      with t have "map_of ts k = Some t"
        by (simp add: link(5) lookup_map_entry)
      with ml c m obtain pn j' where "fkof (columns t ! i') = Some (pn, j')" "map_of ts pn \<noteq> None"
        unfolding members_linked_def by blast
      with there show ?thesis by blast
    next
      case True
      with t link(3) have cols: "columns t = (columns ft)[i := (columns ft ! i)
            \<lparr>fkof := map_option (Pair (fr_pk_table row)) (getColumn pt (fr_pk_column row))\<rparr>]"
        and cons: "fks t = constraint_append (fr_fk_name row) i (fks ft)"
        by (auto simp: link(5) lookup_map_entry set_column_def)
      from c m cons consider "i' = i" | js0 where "i' \<noteq> i" "(n, js0) \<in> set (fks ft)" "i' \<in> set js0"
        using constraint_append_members [of n js "fr_fk_name row" i "fks ft" i'] by auto
      then show ?thesis
      proof cases
        case 1
        with bound cols j have "fkof (columns t ! i') = Some (fr_pk_table row, j)"
          by simp
        with parent show ?thesis by blast
      next
        case 2
        from ml link(3) 2(2,3) obtain pn j' where
          "fkof (columns ft ! i') = Some (pn, j')" "map_of ts pn \<noteq> None"
          unfolding members_linked_def by blast
        moreover from 2(1) cols have "columns t ! i' = columns ft ! i'"
          by simp
        ultimately show ?thesis using there by auto
      qed
    qed
  qed
qed

lemma import_members_linked:
  assumes imp: "importMetadata [] cur = Inr (ts, out)" and res: "parents_resolved ts cur"
  shows "members_linked ts"
  using imp
proof (rule importMetadata_passes)
  fix ts2 ts3 ts4
  let ?ts1 = "foldl (\<lambda>ts row. import_table row ts) [] (show_tables cur)"
  assume p2: "for_rows import_column (show_columns cur) ?ts1 = Inr ts2"
    and p3: "for_rows import_unique (show_unique_keys cur) ts2 = Inr ts3"
    and p4: "import_pks (show_primary_keys cur) ts3 = Inr ts4"
    and p5: "for_rows import_fk (show_imported_keys cur) (ts4, []) = Inr (ts, out)"
  have "\<forall>k t. map_of ?ts1 k = Some t \<longrightarrow> fks t = []"
    by (rule no_fks_import_tables) simp
  with p2 have "\<forall>k t. map_of ts2 k = Some t \<longrightarrow> fks t = []"
    by (rule for_rows_induct) (rule no_fks_import_column)
  with p3 have "\<forall>k t. map_of ts3 k = Some t \<longrightarrow> fks t = []"
    by (rule for_rows_induct) (rule no_fks_import_unique)
  with p4 [unfolded import_pks_def] have "\<forall>k t. map_of ts4 k = Some t \<longrightarrow> fks t = []"
    by (rule for_rows_induct) (rule no_fks_import_pk)
  then have start: "members_linked ts4"
    by (auto simp: members_linked_def)
  have final: "flags ts = flags ts4"
  proof
    fix k
    from import_fks_keep_keys [OF p5, of k] show "flags ts k = flags ts4 k"
      by (cases "map_of ts k"; cases "map_of ts4 k") (auto simp: flags_def)
  qed
  have "members_linked (fst (ts, out)) \<and> flags (fst (ts, out)) = flags ts4"
    using p5
  proof (rule for_rows_induct)
    show "members_linked (fst (ts4, [])) \<and> flags (fst (ts4, [])) = flags ts4"
      using start by simp
  next
    fix r a b
    assume r: "r \<in> set (show_imported_keys cur)"
      and a: "members_linked (fst a) \<and> flags (fst a) = flags ts4"
      and step: "import_fk r a = Inr b"
    from step have step': "import_fk r (fst a, snd a) = Inr (fst b, snd b)" by simp
    have resolved: "\<forall>pt. map_of (fst a) (fr_pk_table r) = Some pt \<longrightarrow>
        getColumn pt (fr_pk_column r) \<noteq> None"
      if s: "fr_pk_schema r = fr_fk_schema r"
    proof (intro allI impI)
      fix pt
      assume pt: "map_of (fst a) (fr_pk_table r) = Some pt"
      from res r s obtain pf where pf: "map_of ts (fr_pk_table r) = Some pf"
        and g: "getColumn pf (fr_pk_column r) \<noteq> None"
        by (auto simp: parents_resolved_def list_all_iff split: option.splits)
      from a final have "flags (fst a) (fr_pk_table r) = flags ts (fr_pk_table r)"
        by simp
      with pt pf have "key_flags pt = key_flags pf"
        by (simp add: flags_def)
      with g show "getColumn pt (fr_pk_column r) \<noteq> None"
        by (simp add: getColumn_key_flags)
    qed
    have "members_linked (fst b)"
      using step' a resolved by (intro import_fk_links [OF step']) simp_all
    moreover have "flags (fst b) = flags ts4"
      using import_fk_flags [OF step'] a by simp
    ultimately show "members_linked (fst b) \<and> flags (fst b) = flags ts4" by simp
  qed
  then show "members_linked ts" by simp
qed

text \<open>
  When the parent column of every linked foreign-key row resolves, every constraint of
  every imported table has a parent table: the hypothesis under which \<open>getDotLinks\<close> is
  described below holds for the whole dictionary.
\<close>

lemma imported_parents:
  assumes imp: "importMetadata [] cur = Inr (ts, out)" and res: "parents_resolved ts cur"
    and mem: "(k, t) \<in> set ts"
  shows "\<forall>(n, members) \<in> set (fks t). parent_table ts t members \<noteq> None"
proof -
  from imp have wf: "tables_wf ts" by (rule import_tables_wf)
  then have "distinct (map fst ts)" by (simp add: tables_wf_def)
  with mem have l: "map_of ts k = Some t" by simp
  from wf mem have twf: "table_wf k t"
    by (auto simp: tables_wf_def list_all_iff)
  from imp res have ml: "members_linked ts" by (rule import_members_linked)
  have "parent_table ts t members \<noteq> None" if c: "(n, members) \<in> set (fks t)" for n members
  proof -
    from c twf have ne: "members \<noteq> []" and b: "\<forall>i \<in> set members. i < length (columns t)"
      by (auto simp: table_wf_def refs_ok_def list_all_iff)
    then obtain i rest where m: "members = i # rest" by (cases members) auto
    with b have i: "i < length (columns t)" by simp
    from ml l c m obtain pn j where "fkof (columns t ! i) = Some (pn, j)" "map_of ts pn \<noteq> None"
      unfolding members_linked_def by (metis list.set_intros(1))
    with m i show ?thesis
      by (simp add: parent_table_def first_member_def column_at_def)
  qed
  then show ?thesis by blast
qed

section \<open>DDL generator, verified\<close>

lemma join_Cons: "join sep (d # ds) = d @ concat (map ((@) sep) ds)"
  by (induction ds arbitrary: d) auto

lemma create_columns_closed:
  assumes "map (getCreateColumn ts) cs = map Inr ds"
  shows "create_columns ts cs first s =
           Inr (s @ (if first then join '','' ds else concat (map ((@) '','') ds)))"
  using assms
proof (induction cs arbitrary: ds first s)
  case Nil
  then show ?case by simp
next
  case (Cons c cs)
  then obtain d ds' where ds: "ds = d # ds'" and d: "getCreateColumn ts c = Inr d"
    and rest: "map (getCreateColumn ts) cs = map Inr ds'"
    by (cases ds) auto
  from Cons.IH [OF rest] show ?case
    by (simp add: ds d join_Cons)
qed

lemma create_uniques_closed:
  assumes "map (getUniques t) ks = map Inr us"
  shows "create_uniques t ks s = Inr (s @ concat us)"
  using assms
proof (induction ks arbitrary: us s)
  case Nil
  then show ?case by simp
next
  case (Cons k ks)
  then obtain u us' where us: "us = u # us'" and u: "getUniques t k = Inr u"
    and rest: "map (getUniques t) ks = map Inr us'"
    by (cases us) auto
  from Cons.IH [OF rest] show ?case
    by (simp add: us u)
qed

lemma column_names_valid:
  assumes "\<forall>i \<in> set js. i < length (columns t)"
  shows "column_names t js = Inr (map (\<lambda>i. getName (cname (columns t ! i))) js)"
  using assms by (induction js) (auto simp: column_at_def)

lemma getUniques_valid:
  assumes "\<forall>(n, js) \<in> set (uniques t). \<forall>i \<in> set js. i < length (columns t)"
    and "k \<in> set (map fst (uniques t))"
  shows "\<exists>u. getUniques t k = Inr u"
proof -
  from assms(2) obtain js where m: "map_of (uniques t) k = Some js"
    by (metis map_of_eq_None_iff not_None_eq set_map)
  then have "(k, js) \<in> set (uniques t)" by (rule map_of_SomeD)
  with assms(1) have "\<forall>i \<in> set js. i < length (columns t)" by blast
  then show ?thesis
    by (simp add: getUniques_def m column_names_valid)
qed

lemma map_Inr_ex:
  assumes "\<forall>x \<in> set xs. \<exists>y. f x = Inr y"
  shows "\<exists>ys. map f xs = map Inr ys"
  using assms
proof (induction xs)
  case Nil
  then show ?case by simp
next
  case (Cons x xs)
  then obtain y ys where "f x = Inr y" "map f xs = map Inr ys" by auto
  then have "map f (x # xs) = map Inr (y # ys)" by simp
  then show ?case by blast
qed

lemma getCreateColumn_owned:
  assumes "map_of ts (table c) = Some t"
  shows "getCreateColumn ts c =
           Inr ([CHR 0x0A] @ ''  '' @ getName (cname c) @ '' '' @ dtype c
                @ nullable_clause t c @ identity_clause c @ pk_clause t c @ comment_clause c)"
  using assms by (simp add: getCreateColumn_def)

text \<open>
  C4. For every column of every table of an imported dictionary, the rendered column
  definition is the name, the datatype and the four clauses in a row; the NOT NULL clause is
  empty if and only if the column is nullable or is the sole PK column of its table (\<open>ispk\<close>
  with exactly one PK column), and is \<open> not null\<close> otherwise.
\<close>

theorem not_null_suffix:
  assumes "importMetadata [] cur = Inr (ts, out)" and "(k, t) \<in> set ts"
    and "c \<in> set (columns t)"
  shows "getCreateColumn ts c =
           Inr ([CHR 0x0A] @ ''  '' @ getName (cname c) @ '' '' @ dtype c
                @ nullable_clause t c @ identity_clause c @ pk_clause t c @ comment_clause c)
         \<and> (nullable_clause t c = [] \<longleftrightarrow> nullable c \<or> (ispk c \<and> length (pks t) = 1))
         \<and> (nullable_clause t c \<noteq> [] \<longleftrightarrow> nullable_clause t c = '' not null'')"
proof -
  from imported_table(1) [OF assms(1,2)] assms(3) have "map_of ts (table c) = Some t"
    by blast
  then show ?thesis
    by (simp add: getCreateColumn_def nullable_clause_def)
qed

theorem not_null_suffix_witness:
  "getCreateColumn shop (columns (shop_table ''ORDER_ITEM'') ! 1) =
     Inr ([CHR 0x0A] @ ''  line_no int(5) not null'')
   \<and> getCreateColumn shop (columns (shop_table ''ORDER_ITEM'') ! 2) =
     Inr ([CHR 0x0A] @ ''  price number(10,2)'')
   \<and> getCreateColumn shop (columns (shop_table ''ORDERS'') ! 0) =
     Inr ([CHR 0x0A] @ ''  id int primary key'')"
proof (intro conjI)
  have names: "getName ''LINE_NO'' = ''line_no''" "getName ''PRICE'' = ''price''"
    "getName ''ID'' = ''id''"
    by (simp_all add: getName_def re_match_ident_def ident_char_def lower_def py_lower_char_def
        is_upper_def)
  note clauses = nullable_clause_def identity_clause_def pk_clause_def comment_clause_def
    replace_quote_def
  have items: "(''ORDER_ITEM'', shop_table ''ORDER_ITEM'') \<in> set shop"
    and orders: "(''ORDERS'', shop_table ''ORDERS'') \<in> set shop"
    by (simp_all add: shop_tables) (simp_all add: shop_eq)
  have c1: "columns (shop_table ''ORDER_ITEM'') ! 1 \<in> set (columns (shop_table ''ORDER_ITEM''))"
    and c2: "columns (shop_table ''ORDER_ITEM'') ! 2 \<in> set (columns (shop_table ''ORDER_ITEM''))"
    and c0: "columns (shop_table ''ORDERS'') ! 0 \<in> set (columns (shop_table ''ORDERS''))"
    by (simp_all add: shop_tables)
  show "getCreateColumn shop (columns (shop_table ''ORDER_ITEM'') ! 1) =
     Inr ([CHR 0x0A] @ ''  line_no int(5) not null'')"
    using not_null_suffix [OF shop_imported items c1]
    by (simp add: shop_tables names clauses)
  show "getCreateColumn shop (columns (shop_table ''ORDER_ITEM'') ! 2) =
     Inr ([CHR 0x0A] @ ''  price number(10,2)'')"
    using not_null_suffix [OF shop_imported items c2]
    by (simp add: shop_tables names clauses)
  show "getCreateColumn shop (columns (shop_table ''ORDERS'') ! 0) =
     Inr ([CHR 0x0A] @ ''  id int primary key'')"
    using not_null_suffix [OF shop_imported orders c0]
    by (simp add: shop_tables names clauses)
qed

text \<open>
  The closed form of \<open>getCreateTable\<close> and of the column definitions, for a table whose
  columns point back to it and whose \<open>pks\<close> and \<open>uniques\<close> name columns of the table, the
  PK columns being flagged \<open>ispk\<close>.
\<close>

lemma create_table_closed:
  assumes owner: "\<forall>c \<in> set (columns t). map_of ts (table c) = Some t"
    and pkrefs: "\<forall>i \<in> set (pks t). i < length (columns t) \<and> ispk (columns t ! i)"
    and uqrefs: "\<forall>(n, js) \<in> set (uniques t). \<forall>i \<in> set js. i < length (columns t)"
  shows "\<exists>ds us.
           map (getCreateColumn ts) (columns t) = map Inr ds \<and>
           map (getUniques t) (map fst (uniques t)) = map Inr us \<and>
           getCreateTable ts t =
             Inr (''create or replace table '' @ getName (name t) @ '' ('' @ join '','' ds
                  @ concat us
                  @ (if 2 \<le> length (pks t)
                     then '','' @ [CHR 0x0A] @ ''  primary key (''
                          @ join '', '' (map (\<lambda>i. getName (cname (columns t ! i))) (pks t))
                          @ '')''
                     else [])
                  @ [CHR 0x0A] @ '')''
                  @ (if comment t \<noteq> []
                     then '' comment = '' @ [CHR 0x27] @ replace_quote (comment t) @ [CHR 0x27]
                     else [])
                  @ '';'' @ [CHR 0x0A, CHR 0x0A]) \<and>
           (\<forall>i < length (columns t).
              ds ! i = [CHR 0x0A] @ ''  '' @ getName (cname (columns t ! i)) @ '' ''
                       @ dtype (columns t ! i) @ nullable_clause t (columns t ! i)
                       @ identity_clause (columns t ! i) @ pk_clause t (columns t ! i)
                       @ comment_clause (columns t ! i)) \<and>
           (length (pks t) = 1 \<longrightarrow> pk_clause t (columns t ! (pks t ! 0)) = '' primary key'') \<and>
           (2 \<le> length (pks t) \<longrightarrow> (\<forall>c \<in> set (columns t). pk_clause t c = []))"
proof -
  define render where "render = (\<lambda>c. [CHR 0x0A] @ ''  '' @ getName (cname c) @ '' '' @ dtype c
      @ nullable_clause t c @ identity_clause c @ pk_clause t c @ comment_clause c)"
  define ds where "ds = map render (columns t)"
  have cols: "map (getCreateColumn ts) (columns t) = map Inr ds"
    using owner by (simp add: ds_def render_def getCreateColumn_owned)
  have "\<forall>k \<in> set (map fst (uniques t)). \<exists>u. getUniques t k = Inr u"
    using getUniques_valid [OF uqrefs] by blast
  then obtain us where us: "map (getUniques t) (map fst (uniques t)) = map Inr us"
    using map_Inr_ex by blast
  have s1: "create_columns ts (columns t) True s = Inr (s @ join '','' ds)" for s
    using create_columns_closed [OF cols, of True s] by simp
  have s2: "create_uniques t (map fst (uniques t)) s = Inr (s @ concat us)" for s
    by (rule create_uniques_closed [OF us])
  have empty_us: "uniques t = [] \<Longrightarrow> us = []"
    using us by simp
  have pk: "getPKs t = Inr ('','' @ [CHR 0x0A] @ ''  primary key (''
        @ join '', '' (map (\<lambda>i. getName (cname (columns t ! i))) (pks t)) @ '')'')"
    using pkrefs by (simp add: getPKs_def column_names_valid)
  have table: "getCreateTable ts t =
      Inr (''create or replace table '' @ getName (name t) @ '' ('' @ join '','' ds
           @ concat us
           @ (if 2 \<le> length (pks t)
              then '','' @ [CHR 0x0A] @ ''  primary key (''
                   @ join '', '' (map (\<lambda>i. getName (cname (columns t ! i))) (pks t)) @ '')''
              else [])
           @ [CHR 0x0A] @ '')''
           @ (if comment t \<noteq> []
              then '' comment = '' @ [CHR 0x27] @ replace_quote (comment t) @ [CHR 0x27]
              else [])
           @ '';'' @ [CHR 0x0A, CHR 0x0A])"
    using empty_us by (simp add: getCreateTable_def Let_def s1 s2 pk)
  have each: "\<forall>i < length (columns t).
      ds ! i = [CHR 0x0A] @ ''  '' @ getName (cname (columns t ! i)) @ '' ''
               @ dtype (columns t ! i) @ nullable_clause t (columns t ! i)
               @ identity_clause (columns t ! i) @ pk_clause t (columns t ! i)
               @ comment_clause (columns t ! i)"
    by (simp add: ds_def render_def)
  have one: "length (pks t) = 1 \<longrightarrow> pk_clause t (columns t ! (pks t ! 0)) = '' primary key''"
  proof
    assume l: "length (pks t) = 1"
    then have "pks t ! 0 \<in> set (pks t)" by (simp add: nth_mem)
    with pkrefs have "ispk (columns t ! (pks t ! 0))" by blast
    with l show "pk_clause t (columns t ! (pks t ! 0)) = '' primary key''"
      by (simp add: pk_clause_def)
  qed
  have many: "2 \<le> length (pks t) \<longrightarrow> (\<forall>c \<in> set (columns t). pk_clause t c = [])"
    by (simp add: pk_clause_def)
  from cols us table each one many show ?thesis by blast
qed

text \<open>
  For every table of an imported dictionary: the CREATE TABLE statement is the header,
  the column definitions separated by commas, the UNIQUE clauses, the composite PRIMARY KEY
  clause exactly when \<open>pks\<close> has two or more members (listing them in the order of the
  list \<open>pks\<close>), and the closing part. With exactly one member that column's definition
  carries the inline clause and no composite clause is emitted; with two or more no column's
  definition carries the inline clause.
\<close>

lemma imported_create_table:
  assumes "importMetadata [] cur = Inr (ts, out)" and "(k, t) \<in> set ts"
  shows "\<exists>ds us.
           map (getCreateColumn ts) (columns t) = map Inr ds \<and>
           map (getUniques t) (map fst (uniques t)) = map Inr us \<and>
           getCreateTable ts t =
             Inr (''create or replace table '' @ getName (name t) @ '' ('' @ join '','' ds
                  @ concat us
                  @ (if 2 \<le> length (pks t)
                     then '','' @ [CHR 0x0A] @ ''  primary key (''
                          @ join '', '' (map (\<lambda>i. getName (cname (columns t ! i))) (pks t))
                          @ '')''
                     else [])
                  @ [CHR 0x0A] @ '')''
                  @ (if comment t \<noteq> []
                     then '' comment = '' @ [CHR 0x27] @ replace_quote (comment t) @ [CHR 0x27]
                     else [])
                  @ '';'' @ [CHR 0x0A, CHR 0x0A]) \<and>
           (\<forall>i < length (columns t).
              ds ! i = [CHR 0x0A] @ ''  '' @ getName (cname (columns t ! i)) @ '' ''
                       @ dtype (columns t ! i) @ nullable_clause t (columns t ! i)
                       @ identity_clause (columns t ! i) @ pk_clause t (columns t ! i)
                       @ comment_clause (columns t ! i)) \<and>
           (length (pks t) = 1 \<longrightarrow> pk_clause t (columns t ! (pks t ! 0)) = '' primary key'') \<and>
           (2 \<le> length (pks t) \<longrightarrow> (\<forall>c \<in> set (columns t). pk_clause t c = []))"
  by (rule create_table_closed [OF imported_table(1,2,3) [OF assms]])

lemma imported_create_table_shop:
  "pk_clause (shop_table ''ORDERS'')
      (columns (shop_table ''ORDERS'') ! (pks (shop_table ''ORDERS'') ! 0)) = '' primary key''
   \<and> list_all (\<lambda>c. pk_clause (shop_table ''ORDER_ITEM'') c = [])
        (columns (shop_table ''ORDER_ITEM''))
   \<and> getCreateTable shop (shop_table ''ORDERS'') =
       Inr (''create or replace table orders ('' @ [CHR 0x0A]
            @ ''  id int primary key,'' @ [CHR 0x0A]
            @ ''  customer_id int'' @ [CHR 0x0A]
            @ '') comment = '' @ [CHR 0x27] @ ''open orders'' @ [CHR 0x27] @ '';''
            @ [CHR 0x0A, CHR 0x0A])
   \<and> getCreateTable shop (shop_table ''ORDER_ITEM'') =
       Inr (''create or replace table order_item ('' @ [CHR 0x0A]
            @ ''  order_id int not null,'' @ [CHR 0x0A]
            @ ''  line_no int(5) not null,'' @ [CHR 0x0A]
            @ ''  price number(10,2),'' @ [CHR 0x0A]
            @ ''  primary key (order_id, line_no)'' @ [CHR 0x0A]
            @ '');'' @ [CHR 0x0A, CHR 0x0A])"
proof -
  have names: "getName ''LINE_NO'' = ''line_no''" "getName ''PRICE'' = ''price''"
    "getName ''ID'' = ''id''" "getName ''ORDER_ID'' = ''order_id''"
    "getName ''CUSTOMER_ID'' = ''customer_id''" "getName ''ORDERS'' = ''orders''"
    "getName ''ORDER_ITEM'' = ''order_item''"
    by (simp_all add: getName_def re_match_ident_def ident_char_def lower_def py_lower_char_def
        is_upper_def)
  note clauses = nullable_clause_def identity_clause_def pk_clause_def comment_clause_def
    replace_quote_def
  have orders: "(''ORDERS'', shop_table ''ORDERS'') \<in> set shop"
    and items: "(''ORDER_ITEM'', shop_table ''ORDER_ITEM'') \<in> set shop"
    by (simp_all add: shop_tables) (simp_all add: shop_eq)
  have two: "ds = [ds ! 0, ds ! 1]" if "length ds = 2" for ds :: "string list"
    using that by (cases ds; cases "tl ds") auto
  have three: "ds = [ds ! 0, ds ! 1, ds ! 2]" if "length ds = 3" for ds :: "string list"
    using that by (cases ds; cases "tl ds"; cases "tl (tl ds)") auto
  from imported_create_table [OF shop_imported orders] obtain ds us where
    ods: "map (getCreateColumn shop) (columns (shop_table ''ORDERS'')) = map Inr ds"
    and ous: "map (getUniques (shop_table ''ORDERS'')) (map fst (uniques (shop_table ''ORDERS'')))
        = map Inr us"
    and otext: "getCreateTable shop (shop_table ''ORDERS'') =
        Inr (''create or replace table '' @ getName (name (shop_table ''ORDERS'')) @ '' (''
          @ join '','' ds @ concat us
          @ (if 2 \<le> length (pks (shop_table ''ORDERS''))
             then '','' @ [CHR 0x0A] @ ''  primary key (''
                  @ join '', '' (map (\<lambda>i. getName (cname (columns (shop_table ''ORDERS'') ! i)))
                      (pks (shop_table ''ORDERS''))) @ '')''
             else [])
          @ [CHR 0x0A] @ '')''
          @ (if comment (shop_table ''ORDERS'') \<noteq> []
             then '' comment = '' @ [CHR 0x27] @ replace_quote (comment (shop_table ''ORDERS''))
                  @ [CHR 0x27]
             else [])
          @ '';'' @ [CHR 0x0A, CHR 0x0A])"
    and oeach: "\<forall>i < length (columns (shop_table ''ORDERS'')).
        ds ! i = [CHR 0x0A] @ ''  '' @ getName (cname (columns (shop_table ''ORDERS'') ! i)) @ '' ''
          @ dtype (columns (shop_table ''ORDERS'') ! i)
          @ nullable_clause (shop_table ''ORDERS'') (columns (shop_table ''ORDERS'') ! i)
          @ identity_clause (columns (shop_table ''ORDERS'') ! i)
          @ pk_clause (shop_table ''ORDERS'') (columns (shop_table ''ORDERS'') ! i)
          @ comment_clause (columns (shop_table ''ORDERS'') ! i)"
    and oone: "length (pks (shop_table ''ORDERS'')) = 1 \<longrightarrow>
        pk_clause (shop_table ''ORDERS'')
          (columns (shop_table ''ORDERS'') ! (pks (shop_table ''ORDERS'') ! 0)) = '' primary key''"
    by blast
  from ods have "length ds = length (columns (shop_table ''ORDERS''))"
    by (metis length_map)
  then have "length ds = 2"
    by (simp add: shop_tables)
  then have ds: "ds = [ds ! 0, ds ! 1]" by (rule two)
  from ous have us: "us = []" by (simp add: shop_tables)
  from oeach have d0: "ds ! 0 = [CHR 0x0A] @ ''  id int primary key''"
    and d1: "ds ! Suc 0 = [CHR 0x0A] @ ''  customer_id int''"
    by (simp_all add: shop_tables names clauses)
  have c3: "getCreateTable shop (shop_table ''ORDERS'') =
       Inr (''create or replace table orders ('' @ [CHR 0x0A]
            @ ''  id int primary key,'' @ [CHR 0x0A]
            @ ''  customer_id int'' @ [CHR 0x0A]
            @ '') comment = '' @ [CHR 0x27] @ ''open orders'' @ [CHR 0x27] @ '';''
            @ [CHR 0x0A, CHR 0x0A])"
    by (subst otext, subst ds) (simp add: us d0 d1 shop_tables names replace_quote_def)
  from oone have c1: "pk_clause (shop_table ''ORDERS'')
      (columns (shop_table ''ORDERS'') ! (pks (shop_table ''ORDERS'') ! 0)) = '' primary key''"
    by (simp add: shop_tables)
  from imported_create_table [OF shop_imported items] obtain es vs where
    ids: "map (getCreateColumn shop) (columns (shop_table ''ORDER_ITEM'')) = map Inr es"
    and ius: "map (getUniques (shop_table ''ORDER_ITEM''))
        (map fst (uniques (shop_table ''ORDER_ITEM''))) = map Inr vs"
    and itext: "getCreateTable shop (shop_table ''ORDER_ITEM'') =
        Inr (''create or replace table '' @ getName (name (shop_table ''ORDER_ITEM'')) @ '' (''
          @ join '','' es @ concat vs
          @ (if 2 \<le> length (pks (shop_table ''ORDER_ITEM''))
             then '','' @ [CHR 0x0A] @ ''  primary key (''
                  @ join '', ''
                      (map (\<lambda>i. getName (cname (columns (shop_table ''ORDER_ITEM'') ! i)))
                      (pks (shop_table ''ORDER_ITEM''))) @ '')''
             else [])
          @ [CHR 0x0A] @ '')''
          @ (if comment (shop_table ''ORDER_ITEM'') \<noteq> []
             then '' comment = '' @ [CHR 0x27]
                  @ replace_quote (comment (shop_table ''ORDER_ITEM'')) @ [CHR 0x27]
             else [])
          @ '';'' @ [CHR 0x0A, CHR 0x0A])"
    and ieach: "\<forall>i < length (columns (shop_table ''ORDER_ITEM'')).
        es ! i = [CHR 0x0A] @ ''  '' @ getName (cname (columns (shop_table ''ORDER_ITEM'') ! i))
          @ '' '' @ dtype (columns (shop_table ''ORDER_ITEM'') ! i)
          @ nullable_clause (shop_table ''ORDER_ITEM'') (columns (shop_table ''ORDER_ITEM'') ! i)
          @ identity_clause (columns (shop_table ''ORDER_ITEM'') ! i)
          @ pk_clause (shop_table ''ORDER_ITEM'') (columns (shop_table ''ORDER_ITEM'') ! i)
          @ comment_clause (columns (shop_table ''ORDER_ITEM'') ! i)"
    and imany: "2 \<le> length (pks (shop_table ''ORDER_ITEM'')) \<longrightarrow>
        (\<forall>c \<in> set (columns (shop_table ''ORDER_ITEM'')).
           pk_clause (shop_table ''ORDER_ITEM'') c = [])"
    by blast
  from ids have "length es = length (columns (shop_table ''ORDER_ITEM''))"
    by (metis length_map)
  then have "length es = 3"
    by (simp add: shop_tables)
  then have es: "es = [es ! 0, es ! 1, es ! 2]" by (rule three)
  from ius have vs: "vs = []" by (simp add: shop_tables)
  from ieach have e0: "es ! 0 = [CHR 0x0A] @ ''  order_id int not null''"
    and e1: "es ! Suc 0 = [CHR 0x0A] @ ''  line_no int(5) not null''"
    and e2: "es ! 2 = [CHR 0x0A] @ ''  price number(10,2)''"
    by (simp_all add: shop_tables names clauses)
  have c4: "getCreateTable shop (shop_table ''ORDER_ITEM'') =
       Inr (''create or replace table order_item ('' @ [CHR 0x0A]
            @ ''  order_id int not null,'' @ [CHR 0x0A]
            @ ''  line_no int(5) not null,'' @ [CHR 0x0A]
            @ ''  price number(10,2),'' @ [CHR 0x0A]
            @ ''  primary key (order_id, line_no)'' @ [CHR 0x0A]
            @ '');'' @ [CHR 0x0A, CHR 0x0A])"
    by (subst itext, subst es) (simp add: vs e0 e1 e2 shop_tables names replace_quote_def)
  from imany have c2: "list_all (\<lambda>c. pk_clause (shop_table ''ORDER_ITEM'') c = [])
        (columns (shop_table ''ORDER_ITEM''))"
    by (simp add: shop_tables list_all_iff)
  from c1 c2 c3 c4 show ?thesis by blast
qed

text \<open>
  C2. The claim has the composite PRIMARY KEY clause list the PK columns in position order,
  for every table. The clause lists them in the order of the list \<open>pks\<close>, which import
  fills with \<open>pks.insert(pos, column)\<close>, and that is position order only when the rows of
  \<open>show primary keys\<close> arrive with ascending positions. For \<open>keys_descending\<close>, where the
  rows of the key (A, B, C) arrive as C at position 3, B at position 2, A at position 1, the
  import succeeds and the statement generated for the table lists the key as (a, c, b), where
  the claim has (a, b, c). The rest of the claim holds for this table: no column carries the
  inline clause, and there is one composite clause.
\<close>

theorem composite_key_out_of_position:
  "map (\<lambda>r. (pr_column r, pr_key_sequence r)) (show_primary_keys keys_descending) =
     [(''C'', 3), (''B'', 2), (''A'', 1)]
   \<and> map_sum id (\<lambda>(ts, out). create_statements ts) (importMetadata [] keys_descending) =
     Inr [Inr (''create or replace table t ('' @ [CHR 0x0A]
               @ ''  a int not null,'' @ [CHR 0x0A]
               @ ''  b int not null,'' @ [CHR 0x0A]
               @ ''  c int not null,'' @ [CHR 0x0A]
               @ ''  primary key (a, c, b)'' @ [CHR 0x0A]
               @ '');'' @ [CHR 0x0A, CHR 0x0A])]"
  by code_simp
section \<open>Diagram generator, verified\<close>






end
